theory Spec2Isabelle
  imports Main
begin

section \<open>The ADB session of \<^verbatim>\<open>adb_manager.py\<close>\<close>

text \<open>
  The class \<^verbatim>\<open>ADBManager\<close> wraps the external \<^verbatim>\<open>adb\<close> executable. Everything it does
  is a sequence of process invocations, sleeps and console lines, so the model threads two
  things through every method: the object (\<^verbatim>\<open>self\<close>) and the world outside the
  interpreter. A method of the class is a function from the pair of both to a result and
  the pair afterwards; a raised exception is the \<open>Inl\<close> side of the result.

  Text is a \<open>string\<close> whose characters stand for the code points below 256 of a Python
  \<^verbatim>\<open>str\<close>; text with other code points is outside the model.
\<close>

subsection \<open>The world: processes, clock and console\<close>

text \<open>
  One constructor for each \<^verbatim>\<open>print\<close> call of the class, carrying the values the
  source interpolates into the line.
\<close>

datatype console =
    WaitingForDevice
  | DeviceConnected
  | Dot
  | DeviceNotFound
  | InvalidMode string
  | Rebooting string
  | LocalFileNotFound string
  | FilePushed string string
  | FailedToPush string
  | FilePulled string string
  | FailedToPull string

text \<open>
  What the interpreter did to the world, in order: \<open>Run argv t\<close> is
  \<^verbatim>\<open>subprocess.run(argv, capture_output=True, text=True, timeout=t)\<close>, \<open>Sleep n\<close> is
  \<^verbatim>\<open>time.sleep(n)\<close>, \<open>Print m\<close> is a console line.
\<close>

datatype event = is_Run: Run "string list" int | Sleep nat | Print console

text \<open>
  How \<^verbatim>\<open>subprocess.run\<close> ends: the process exits with a return code and the two
  captured streams, or \<^verbatim>\<open>subprocess.TimeoutExpired\<close> is raised, or any other exception
  is raised (file not found, permission denied, ...), kept as its \<^verbatim>\<open>str(e)\<close>.
\<close>

datatype proc_outcome =
    Completed int string string
  | TimeoutExpired
  | OtherException string

text \<open>
  The world answers a process invocation as a function of everything that happened
  before it, so a device may appear after some polls or some seconds. \<open>path_exists\<close> is
  \<^verbatim>\<open>os.path.exists\<close> and \<open>trace\<close> the events so far. \<open>home_path rel\<close> is the text
  \<^verbatim>\<open>str(Path.home() / rel)\<close> as \<^verbatim>\<open>pathlib\<close> computes it on this machine, with the
  separators and the home directory of its platform; \<^verbatim>\<open>Path.home()\<close> is taken as
  always available.
\<close>

record world =
  subprocess_run :: "event list \<Rightarrow> string list \<Rightarrow> int \<Rightarrow> proc_outcome"
  path_exists :: "event list \<Rightarrow> string \<Rightarrow> bool"
  home_path :: "string \<Rightarrow> string"
  trace :: "event list"

definition spawn :: "string list \<Rightarrow> int \<Rightarrow> world \<Rightarrow> proc_outcome \<times> world" where
  "spawn argv t w =
     (subprocess_run w (trace w) argv t, w\<lparr>trace := trace w @ [Run argv t]\<rparr>)"

definition print :: "console \<Rightarrow> world \<Rightarrow> world" where
  "print m w = w\<lparr>trace := trace w @ [Print m]\<rparr>"

definition sleep :: "nat \<Rightarrow> world \<Rightarrow> world" where
  "sleep n w = w\<lparr>trace := trace w @ [Sleep n]\<rparr>"

text \<open>The process invocations among the events of a world, oldest first.\<close>

definition invocations :: "world \<Rightarrow> event list" where
  "invocations w = filter is_Run (trace w)"

subsection \<open>Python string operations\<close>

text \<open>
  \<^verbatim>\<open>str.isspace\<close> on the code points below 256: tab, line feed, vertical tab, form feed,
  carriage return, the four separators 0x1C to 0x1F, space, NEL (0x85) and the no-break
  space (0xA0).
\<close>

definition isspace :: "char \<Rightarrow> bool" where
  "isspace c = (of_char c \<in> {9, 10, 11, 12, 13, 28, 29, 30, 31, 32, 133, 160 :: nat})"

text \<open>\<^verbatim>\<open>s.strip()\<close>\<close>

definition strip :: "string \<Rightarrow> string" where
  "strip s = rev (dropWhile isspace (rev (dropWhile isspace s)))"

text \<open>\<^verbatim>\<open>s.split()\<close>: the maximal runs of non-whitespace characters.\<close>

fun split_from :: "string \<Rightarrow> string \<Rightarrow> string list" where
  "split_from cur [] = (if cur = [] then [] else [cur])"
| "split_from cur (c # cs) =
     (if isspace c then (if cur = [] then split_from [] cs else cur # split_from [] cs)
      else split_from (cur @ [c]) cs)"

definition split :: "string \<Rightarrow> string list" where
  "split s = split_from [] s"

text \<open>\<^verbatim>\<open>s.startswith(p)\<close> and \<^verbatim>\<open>sub in s\<close>\<close>

fun startswith :: "string \<Rightarrow> string \<Rightarrow> bool" where
  "startswith s [] = True"
| "startswith [] (p # ps) = False"
| "startswith (c # cs) (p # ps) = (c = p \<and> startswith cs ps)"

fun str_in :: "string \<Rightarrow> string \<Rightarrow> bool" where
  "str_in sub [] = (sub = [])"
| "str_in sub (c # cs) = (startswith (c # cs) sub \<or> str_in sub cs)"

subsection \<open>The object and its results\<close>

text \<open>
  The dictionary every \<^verbatim>\<open>execute_command\<close> returns, with its four keys as fields
  (\<open>output'\<close> and \<open>error'\<close> are the keys \<^verbatim>\<open>'output'\<close> and \<^verbatim>\<open>'error'\<close>).
\<close>

record CommandResult =
  success :: bool
  output' :: string
  error' :: string
  returncode :: int

record ADBManager =
  adb_path :: "string option"
  devices :: "string list"
  timeout :: int

datatype exn = Exception string

type_synonym machine = "ADBManager \<times> world"

subsection \<open>Finding the executable\<close>

definition possible_paths :: "world \<Rightarrow> string list" where
  "possible_paths w =
     [''adb'',
      ''/usr/bin/adb'',
      ''/usr/local/bin/adb'',
      ''C:'' @ CHR 0x5C # ''Android'' @ CHR 0x5C # ''platform-tools'' @ CHR 0x5C # ''adb.exe'',
      home_path w ''AppData/Local/Android/Sdk/platform-tools/adb.exe'',
      home_path w ''Library/Android/sdk/platform-tools/adb'']"

text \<open>
  \<^verbatim>\<open>_check_adb_path\<close>: the bare \<^verbatim>\<open>except:\<close> turns every exception of the invocation
  into \<^verbatim>\<open>False\<close>.
\<close>

definition check_adb_path :: "string \<Rightarrow> world \<Rightarrow> bool \<times> world" where
  "check_adb_path path w =
     (case spawn [path, ''--version''] 5 w of
        (Completed rc out err, w1) \<Rightarrow> (rc = 0, w1)
      | (TimeoutExpired, w1) \<Rightarrow> (False, w1)
      | (OtherException e, w1) \<Rightarrow> (False, w1))"

fun find_adb_loop :: "string list \<Rightarrow> world \<Rightarrow> string option \<times> world" where
  "find_adb_loop [] w = (None, w)"
| "find_adb_loop (path # rest) w =
     (case check_adb_path path w of
        (True, w1) \<Rightarrow> (Some path, w1)
      | (False, w1) \<Rightarrow> find_adb_loop rest w1)"

definition find_adb :: "world \<Rightarrow> string option \<times> world" where
  "find_adb w = find_adb_loop (possible_paths w) w"

text \<open>\<^verbatim>\<open>__init__\<close>\<close>

definition init :: "world \<Rightarrow> machine" where
  "init w =
     (case find_adb w of
        (p, w1) \<Rightarrow> (\<lparr>adb_path = p, devices = [], timeout = 30\<rparr>, w1))"

subsection \<open>Executing a command and waiting for a device\<close>

text \<open>
  \<^verbatim>\<open>execute_command\<close> and \<^verbatim>\<open>wait_for_device\<close> call each other. \<open>wfd\<close> is the
  parameter \<^verbatim>\<open>wait_for_device\<close> of \<^verbatim>\<open>execute_command\<close>; \<open>wait_for_device_loop n\<close>
  is the \<^verbatim>\<open>for\<close> loop with \<open>n\<close> iterations left. \<^verbatim>\<open>not self.adb_path\<close> holds for
  \<^verbatim>\<open>None\<close> and for the empty string. The call of \<^verbatim>\<open>wait_for_device\<close> is inside the
  \<^verbatim>\<open>try\<close>, so an exception it raises becomes a result.
\<close>

function execute_command :: "string list \<Rightarrow> bool \<Rightarrow> machine \<Rightarrow> (exn + CommandResult) \<times> machine"
  and wait_for_device :: "int \<Rightarrow> machine \<Rightarrow> (exn + bool) \<times> machine"
  and wait_for_device_loop :: "nat \<Rightarrow> machine \<Rightarrow> (exn + bool) \<times> machine"
where
  "execute_command command wfd (self, w) =
     (case adb_path self of
        None \<Rightarrow> (Inl (Exception ''ADB not found''), (self, w))
      | Some p \<Rightarrow>
          if p = [] then (Inl (Exception ''ADB not found''), (self, w))
          else
            let full_command = [p] @ command in
            (case (if wfd then wait_for_device 30 (self, w) else (Inr False, (self, w))) of
               (Inl (Exception e), (self1, w1)) \<Rightarrow>
                 (Inr \<lparr>success = False, output' = [], error' = e, returncode = - 1\<rparr>,
                  (self1, w1))
             | (Inr waited, (self1, w1)) \<Rightarrow>
                 (case spawn full_command (timeout self1) w1 of
                    (Completed rc out err, w2) \<Rightarrow>
                      (Inr \<lparr>success = (rc = 0), output' = strip out, error' = strip err,
                            returncode = rc\<rparr>, (self1, w2))
                  | (TimeoutExpired, w2) \<Rightarrow>
                      (Inr \<lparr>success = False, output' = [], error' = ''Command timed out'',
                            returncode = - 1\<rparr>, (self1, w2))
                  | (OtherException e, w2) \<Rightarrow>
                      (Inr \<lparr>success = False, output' = [], error' = e, returncode = - 1\<rparr>,
                       (self1, w2)))))"
| "wait_for_device max_attempts (self, w) =
     wait_for_device_loop (nat max_attempts) (self, print WaitingForDevice w)"
| "wait_for_device_loop 0 (self, w) = (Inr False, (self, print DeviceNotFound w))"
| "wait_for_device_loop (Suc n) (self, w) =
     (case execute_command [''devices''] False (self, w) of
        (Inl e, st1) \<Rightarrow> (Inl e, st1)
      | (Inr result, (self1, w1)) \<Rightarrow>
          if str_in ''device\<newline>'' (output' result)
          then (Inr True, (self1, print DeviceConnected w1))
          else wait_for_device_loop n (self1, sleep 1 (print Dot w1)))"
  by pat_completeness auto
termination
  by (relation "measure (\<lambda>x. case x of
         Inl (c, wfd, st) \<Rightarrow> (if wfd then 33 else 0)
       | Inr (Inl (m, st)) \<Rightarrow> nat m + 2
       | Inr (Inr (n, st)) \<Rightarrow> n + 1)") auto

declare execute_command.simps [simp del] wait_for_device.simps [simp del]

subsection \<open>Device operations\<close>

definition commands :: "(string \<times> string) list" where
  "commands =
     [(''shell getprop ro.product.model'', ''Model''),
      (''shell getprop ro.build.version.release'', ''Android Version''),
      (''shell getprop ro.build.version.security_patch'', ''Security Patch''),
      (''shell getprop ro.product.manufacturer'', ''Manufacturer''),
      (''shell getprop ro.serialno'', ''Serial Number''),
      (''shell getprop ro.bootloader'', ''Bootloader''),
      (''shell getprop ro.hardware'', ''Hardware'')]"

text \<open>The \<^verbatim>\<open>for cmd, key in commands\<close> loop of \<^verbatim>\<open>get_device_info\<close>.\<close>

fun get_device_info_loop ::
  "(string \<times> string) list \<Rightarrow> (string \<rightharpoonup> string) \<Rightarrow> machine
     \<Rightarrow> (exn + (string \<rightharpoonup> string)) \<times> machine" where
  "get_device_info_loop [] info st = (Inr info, st)"
| "get_device_info_loop ((cmd, key) # rest) info st =
     (case execute_command (split cmd) False st of
        (Inl e, st1) \<Rightarrow> (Inl e, st1)
      | (Inr result, st1) \<Rightarrow>
          get_device_info_loop rest
            (if success result \<and> output' result \<noteq> []
             then info(key \<mapsto> strip (output' result)) else info)
            st1)"

definition get_device_info ::
  "string option \<Rightarrow> machine \<Rightarrow> (exn + (string \<rightharpoonup> string)) \<times> machine" where
  "get_device_info device_id st = get_device_info_loop commands Map.empty st"

definition modes :: "(string \<times> string) list" where
  "modes =
     [(''system'', []),
      (''recovery'', ''recovery''),
      (''bootloader'', ''bootloader''),
      (''fastboot'', ''bootloader''),
      (''download'', ''download''),
      (''sideload'', ''sideload'')]"

definition reboot_device :: "string \<Rightarrow> machine \<Rightarrow> (exn + bool) \<times> machine" where
  "reboot_device mode st =
     (case st of (self, w) \<Rightarrow>
        (case map_of modes mode of
           None \<Rightarrow> (Inr False, (self, print (InvalidMode mode) w))
         | Some target \<Rightarrow>
             let cmd = [''reboot''] @ (if target \<noteq> [] then [target] else []) in
             (case execute_command cmd False (self, w) of
                (Inl e, st1) \<Rightarrow> (Inl e, st1)
              | (Inr result, (self1, w1)) \<Rightarrow>
                  if success result
                  then (Inr True, (self1, sleep 5 (print (Rebooting mode) w1)))
                  else (Inr False, (self1, w1)))))"

definition is_device_rooted :: "machine \<Rightarrow> (exn + bool) \<times> machine" where
  "is_device_rooted st =
     (case execute_command [''shell'', ''su'', ''-c'', ''echo root_check''] False st of
        (Inl e, st1) \<Rightarrow> (Inl e, st1)
      | (Inr result, st1) \<Rightarrow>
          if success result \<and> str_in ''root_check'' (output' result) then (Inr True, st1)
          else
            (case execute_command [''shell'', ''which'', ''su''] False st1 of
               (Inl e, st2) \<Rightarrow> (Inl e, st2)
             | (Inr result2, st2) \<Rightarrow>
                 (Inr (success result2 \<and> str_in ''/su'' (output' result2)), st2)))"

definition push_file :: "string \<Rightarrow> string \<Rightarrow> machine \<Rightarrow> (exn + bool) \<times> machine" where
  "push_file local_path device_path st =
     (case st of (self, w) \<Rightarrow>
        if \<not> path_exists w (trace w) local_path
        then (Inr False, (self, print (LocalFileNotFound local_path) w))
        else
          (case execute_command [''push'', local_path, device_path] False (self, w) of
             (Inl e, st1) \<Rightarrow> (Inl e, st1)
           | (Inr result, (self1, w1)) \<Rightarrow>
               if success result
               then (Inr True, (self1, print (FilePushed local_path device_path) w1))
               else (Inr False, (self1, print (FailedToPush (error' result)) w1))))"

definition pull_file :: "string \<Rightarrow> string \<Rightarrow> machine \<Rightarrow> (exn + bool) \<times> machine" where
  "pull_file device_path local_path st =
     (case execute_command [''pull'', device_path, local_path] False st of
        (Inl e, st1) \<Rightarrow> (Inl e, st1)
      | (Inr result, (self1, w1)) \<Rightarrow>
          if success result
          then (Inr True, (self1, print (FilePulled device_path local_path) w1))
          else (Inr False, (self1, print (FailedToPull (error' result)) w1)))"

definition shell_command ::
  "string \<Rightarrow> bool \<Rightarrow> machine \<Rightarrow> (exn + CommandResult) \<times> machine" where
  "shell_command command root st =
     (let command1 = (if root then ''su -c '' @ CHR 0x22 # command @ [CHR 0x22] else command)
      in execute_command [''shell'', command1] False st)"

subsection \<open>Describing outcomes\<close>

text \<open>
  The dictionary \<^verbatim>\<open>execute_command\<close> builds for each way the invocation can end; the
  lemmas below relate the method to it.
\<close>

definition command_result :: "proc_outcome \<Rightarrow> CommandResult" where
  "command_result oc =
     (case oc of
        Completed rc out err \<Rightarrow>
          \<lparr>success = (rc = 0), output' = strip out, error' = strip err, returncode = rc\<rparr>
      | TimeoutExpired \<Rightarrow>
          \<lparr>success = False, output' = [], error' = ''Command timed out'', returncode = - 1\<rparr>
      | OtherException e \<Rightarrow>
          \<lparr>success = False, output' = [], error' = e, returncode = - 1\<rparr>)"

text \<open>The test \<^verbatim>\<open>wait_for_device\<close> makes on the result of one poll.\<close>

definition poll_ready :: "proc_outcome \<Rightarrow> bool" where
  "poll_ready oc = str_in ''device\<newline>'' (output' (command_result oc))"

text \<open>
  The events of \<open>i\<close> unsuccessful polls of \<^verbatim>\<open>wait_for_device\<close> after the history
  \<open>h0\<close>: the invocation, the dot and the sleep of one second, \<open>i\<close> times.
\<close>

definition poll_history :: "string \<Rightarrow> int \<Rightarrow> event list \<Rightarrow> nat \<Rightarrow> event list" where
  "poll_history p t h0 i =
     h0 @ concat (replicate i [Run [p, ''devices''] t, Print Dot, Sleep 1])"

text \<open>
  What the specification means by a text trimmed of leading and trailing whitespace:
  \<open>t\<close> is \<open>raw\<close> without a prefix and a suffix of whitespace, and neither begins nor
  ends with whitespace.
\<close>

definition trimmed_of :: "string \<Rightarrow> string \<Rightarrow> bool" where
  "trimmed_of raw t =
     ((\<exists>l r. raw = l @ t @ r \<and> (\<forall>c \<in> set l. isspace c) \<and> (\<forall>c \<in> set r. isspace c))
      \<and> (t \<noteq> [] \<longrightarrow> \<not> isspace (hd t) \<and> \<not> isspace (last t)))"

subsection \<open>Describing the queries of \<^verbatim>\<open>get_device_info\<close>\<close>

text \<open>
  The invocation for one entry of the command table, the history at which the \<open>i\<close>-th
  query is issued (the queries before it have been issued, nothing else happened), and
  what the \<open>i\<close>-th query contributes: its trimmed output when the command succeeded with
  non-empty output, nothing otherwise.
\<close>

definition query_event :: "string \<Rightarrow> int \<Rightarrow> string \<times> string \<Rightarrow> event" where
  "query_event p t c = Run (p # split (fst c)) t"

definition query_history ::
  "string \<Rightarrow> int \<Rightarrow> event list \<Rightarrow> (string \<times> string) list \<Rightarrow> nat \<Rightarrow> event list" where
  "query_history p t h0 cs i = h0 @ map (query_event p t) (take i cs)"

definition query_value ::
  "world \<Rightarrow> string \<Rightarrow> int \<Rightarrow> (string \<times> string) list \<Rightarrow> nat \<Rightarrow> string option" where
  "query_value w p t cs i =
     (let r = command_result
                (subprocess_run w (query_history p t (trace w) cs i) (p # split (fst (cs ! i))) t)
      in if success r \<and> output' r \<noteq> [] then Some (output' r) else None)"

subsection \<open>Describing the root checks\<close>

text \<open>
  A check passes when its command exited with code 0 and the marker occurs in its trimmed
  output. The two commands of \<^verbatim>\<open>is_device_rooted\<close>.
\<close>

definition check_passes :: "string \<Rightarrow> proc_outcome \<Rightarrow> bool" where
  "check_passes marker oc =
     (success (command_result oc) \<and> str_in marker (output' (command_result oc)))"

definition primary_check :: "string list" where
  "primary_check = [''shell'', ''su'', ''-c'', ''echo root_check'']"

definition fallback_check :: "string list" where
  "fallback_check = [''shell'', ''which'', ''su'']"

subsection \<open>Describing the probes of \<^verbatim>\<open>find_adb\<close>\<close>

text \<open>
  The history at which the \<open>i\<close>-th candidate is probed (the candidates before it have
  been probed), and whether that probe passes: the version query of the candidate
  completes with return code 0. A timeout and every other exception is a failed probe.
\<close>

definition probe_history :: "string list \<Rightarrow> event list \<Rightarrow> nat \<Rightarrow> event list" where
  "probe_history cs h0 i = h0 @ map (\<lambda>c. Run [c, ''--version''] 5) (take i cs)"

definition probe_ok :: "world \<Rightarrow> string list \<Rightarrow> nat \<Rightarrow> bool" where
  "probe_ok w cs i =
     (case subprocess_run w (probe_history cs (trace w) i) [cs ! i, ''--version''] 5 of
        Completed rc out err \<Rightarrow> rc = 0
      | TimeoutExpired \<Rightarrow> False
      | OtherException e \<Rightarrow> False)"

subsection \<open>Sample sessions and worlds\<close>

text \<open>A session whose executable was resolved to \<^verbatim>\<open>adb\<close>, and one without executable.\<close>

definition demo_self :: ADBManager where
  "demo_self = \<lparr>adb_path = Some ''adb'', devices = [], timeout = 30\<rparr>"

definition no_adb_self :: ADBManager where
  "no_adb_self = \<lparr>adb_path = None, devices = [], timeout = 30\<rparr>"

text \<open>
  A fresh world whose processes behave as \<open>f\<close> says, on a POSIX machine with the home
  directory \<^verbatim>\<open>/home/user\<close>.
\<close>

definition world_of :: "(event list \<Rightarrow> string list \<Rightarrow> int \<Rightarrow> proc_outcome) \<Rightarrow> world" where
  "world_of f =
     \<lparr>subprocess_run = f, path_exists = (\<lambda>h path. False),
      home_path = (\<lambda>rel. ''/home/user/'' @ rel), trace = []\<rparr>"

text \<open>
  What \<^verbatim>\<open>adb devices\<close> writes with one device attached and ready, and with none.
\<close>

definition devices_single :: string where
  "devices_single =
     ''List of devices attached\<newline>emulator-5554'' @ CHR 0x09 # ''device\<newline>\<newline>''"

definition devices_none :: string where
  "devices_none = ''List of devices attached\<newline>\<newline>''"

text \<open>A world where the device shows up after two polls.\<close>

definition late_device_world :: world where
  "late_device_world =
     world_of (\<lambda>h argv t.
       if length (filter is_Run h) < 2 then Completed 0 devices_none []
       else Completed 0 devices_single [])"

text \<open>
  A device that answers four property queries, prints an empty serial number, fails on
  the bootloader query and hangs on the hardware query.
\<close>

definition getprop_world :: world where
  "getprop_world =
     world_of (\<lambda>h argv t.
       if last argv = ''ro.product.model'' then Completed 0 ''Pixel 7\<newline>'' []
       else if last argv = ''ro.build.version.release'' then Completed 0 ''14\<newline>'' []
       else if last argv = ''ro.build.version.security_patch''
         then Completed 0 ''2024-01-05\<newline>'' []
       else if last argv = ''ro.product.manufacturer'' then Completed 0 ''Google\<newline>'' []
       else if last argv = ''ro.serialno'' then Completed 0 ''\<newline>'' []
       else if last argv = ''ro.bootloader'' then Completed 1 [] ''error: closed\<newline>''
       else if last argv = ''ro.hardware'' then TimeoutExpired
       else OtherException ''unexpected'')"

text \<open>
  A machine where the bare command is not on the search path and \<^verbatim>\<open>/usr/bin/adb\<close>
  works.
\<close>

definition usr_bin_world :: world where
  "usr_bin_world =
     world_of (\<lambda>h argv t.
       if argv = [''adb'', ''--version''] then OtherException ''[Errno 2] No such file or directory''
       else if argv = [''/usr/bin/adb'', ''--version'']
         then Completed 0 ''Android Debug Bridge version 1.0.41\<newline>'' []
       else TimeoutExpired)"

text \<open>
  A POSIX machine whose home directory is the root, where only the Windows-layout
  candidate under the home directory works.
\<close>

definition root_home_world :: world where
  "root_home_world =
     (world_of (\<lambda>h argv t.
        if argv = [''/AppData/Local/Android/Sdk/platform-tools/adb.exe'', ''--version'']
        then Completed 0 ''Android Debug Bridge version 1.0.41\<newline>'' []
        else OtherException ''[Errno 2] No such file or directory''))
     \<lparr>home_path := (\<lambda>rel. ''/'' @ rel)\<rparr>"

section \<open>Properties\<close>

subsection \<open>Trimming and searching text\<close>

lemma strip_trimmed: "trimmed_of s (strip s)"
proof -
  let ?a = "takeWhile isspace s"
  let ?m = "dropWhile isspace s"
  let ?b = "takeWhile isspace (rev ?m)"
  have m: "rev ?m = ?b @ rev (strip s)"
    by (simp add: strip_def)
  then have "?m = strip s @ rev ?b"
    by (metis rev_append rev_rev_ident)
  then have s: "s = ?a @ strip s @ rev ?b"
    by (metis takeWhile_dropWhile_id)
  have a: "\<forall>c \<in> set ?a. isspace c"
    by (auto dest: set_takeWhileD)
  have b: "\<forall>c \<in> set (rev ?b). isspace c"
    by (auto dest: set_takeWhileD)
  have e: "strip s \<noteq> [] \<longrightarrow> \<not> isspace (hd (strip s)) \<and> \<not> isspace (last (strip s))"
  proof
    assume ne: "strip s \<noteq> []"
    then have d: "dropWhile isspace (rev ?m) \<noteq> []"
      by (simp add: strip_def)
    then have l: "\<not> isspace (last (strip s))"
      by (simp add: strip_def last_rev hd_dropWhile)
    have mne: "?m \<noteq> []"
    proof
      assume "?m = []"
      with d show False by simp
    qed
    then have hm: "\<not> isspace (hd ?m)" by (simp add: hd_dropWhile)
    from ne \<open>?m = strip s @ rev ?b\<close> have "hd ?m = hd (strip s)"
      by (metis hd_append2)
    with hm l show "\<not> isspace (hd (strip s)) \<and> \<not> isspace (last (strip s))" by simp
  qed
  from s a b e show ?thesis
    unfolding trimmed_of_def by blast
qed

lemma strip_idem: "strip (strip s) = strip s"
proof (cases "strip s = []")
  case True
  have "strip [] = []" by (simp add: strip_def)
  with True show ?thesis by simp
next
  case False
  with strip_trimmed[of s] have h: "\<not> isspace (hd (strip s))" and l: "\<not> isspace (last (strip s))"
    by (auto simp: trimmed_of_def)
  from False h have 1: "dropWhile isspace (strip s) = strip s"
    by (cases "strip s") auto
  from False l have 2: "dropWhile isspace (rev (strip s)) = rev (strip s)"
    by (cases "rev (strip s)") (auto simp: last_rev[symmetric] hd_rev)
  show ?thesis
    by (subst (1) strip_def) (simp add: 1 2)
qed

lemma startswith_iff: "startswith s p \<longleftrightarrow> (\<exists>r. s = p @ r)"
  by (induction s p rule: startswith.induct) auto

lemma str_in_iff: "str_in sub s \<longleftrightarrow> (\<exists>a b. s = a @ sub @ b)"
proof (induction s)
  case Nil
  show ?case by auto
next
  case (Cons c cs)
  show ?case
  proof
    assume "str_in sub (c # cs)"
    then consider "startswith (c # cs) sub" | "str_in sub cs" by auto
    then show "\<exists>a b. c # cs = a @ sub @ b"
    proof cases
      case 1
      then obtain r where "c # cs = sub @ r" unfolding startswith_iff by blast
      then have "c # cs = [] @ sub @ r" by simp
      then show ?thesis by blast
    next
      case 2
      with Cons.IH obtain a b where "cs = a @ sub @ b" by blast
      then have "c # cs = (c # a) @ sub @ b" by simp
      then show ?thesis by blast
    qed
  next
    assume "\<exists>a b. c # cs = a @ sub @ b"
    then obtain a b where ab: "c # cs = a @ sub @ b" by blast
    show "str_in sub (c # cs)"
    proof (cases a)
      case Nil
      with ab have "startswith (c # cs) sub" unfolding startswith_iff by auto
      then show ?thesis by simp
    next
      case (Cons x a')
      with ab have "cs = a' @ sub @ b" by simp
      with Cons.IH have "str_in sub cs" by blast
      then show ?thesis by simp
    qed
  qed
qed

subsection \<open>One command, one wait\<close>

lemma execute_command_not_found:
  "adb_path self = None \<or> adb_path self = Some [] \<Longrightarrow>
   execute_command command wfd (self, w) = (Inl (Exception ''ADB not found''), (self, w))"
  by (auto simp: execute_command.simps)

lemma execute_command_direct:
  "adb_path self = Some p \<Longrightarrow> p \<noteq> [] \<Longrightarrow>
   execute_command command False (self, w) =
     (Inr (command_result (subprocess_run w (trace w) (p # command) (timeout self))),
      (self, w\<lparr>trace := trace w @ [Run (p # command) (timeout self)]\<rparr>))"
  by (simp add: execute_command.simps spawn_def command_result_def split: proc_outcome.split)

lemma wait_for_device_loop_trace:
  assumes "adb_path self = Some p" "p \<noteq> []"
  shows "\<exists>b es. wait_for_device_loop n (self, w) = (Inr b, (self, w\<lparr>trace := trace w @ es\<rparr>))
           \<and> length (filter is_Run es) \<le> n
           \<and> (\<forall>e \<in> set es. is_Run e \<longrightarrow> e = Run [p, ''devices''] (timeout self))
           \<and> Print WaitingForDevice \<notin> set es"
proof (induction n arbitrary: w)
  case 0
  show ?case
    by (intro exI[of _ False] exI[of _ "[Print DeviceNotFound]"]) (simp add: print_def)
next
  case (Suc n)
  let ?oc = "subprocess_run w (trace w) [p, ''devices''] (timeout self)"
  let ?w1 = "w\<lparr>trace := trace w @ [Run [p, ''devices''] (timeout self)]\<rparr>"
  have ex: "execute_command [''devices''] False (self, w) = (Inr (command_result ?oc), (self, ?w1))"
    using assms by (rule execute_command_direct)
  show ?case
  proof (cases "str_in ''device\<newline>'' (output' (command_result ?oc))")
    case True
    have "wait_for_device_loop (Suc n) (self, w) =
            (Inr True, (self, w\<lparr>trace := trace w @ [Run [p, ''devices''] (timeout self), Print DeviceConnected]\<rparr>))"
      using True by (simp add: ex print_def)
    then show ?thesis
      by (intro exI[of _ True] exI[of _ "[Run [p, ''devices''] (timeout self), Print DeviceConnected]"]) simp
  next
    case False
    let ?w2 = "sleep 1 (print Dot ?w1)"
    from Suc.IH[of ?w2] obtain b es where
      IH: "wait_for_device_loop n (self, ?w2) = (Inr b, (self, ?w2\<lparr>trace := trace ?w2 @ es\<rparr>))"
          "length (filter is_Run es) \<le> n"
          "\<forall>e \<in> set es. is_Run e \<longrightarrow> e = Run [p, ''devices''] (timeout self)"
          "Print WaitingForDevice \<notin> set es"
      by blast
    have "wait_for_device_loop (Suc n) (self, w) = wait_for_device_loop n (self, ?w2)"
      using False by (simp add: ex)
    with IH show ?thesis
      by (intro exI[of _ b] exI[of _ "[Run [p, ''devices''] (timeout self), Print Dot, Sleep 1] @ es"])
         (simp add: sleep_def print_def)
  qed
qed

lemma poll_history_Suc:
  "poll_history p t h0 (Suc i) = poll_history p t (h0 @ [Run [p, ''devices''] t, Print Dot, Sleep 1]) i"
  by (simp add: poll_history_def)

lemma wait_for_device_loop_never_ready:
  assumes "adb_path self = Some p" "p \<noteq> []"
    and "\<forall>i<n. \<not> poll_ready
           (subprocess_run w (poll_history p (timeout self) (trace w) i) [p, ''devices'']
              (timeout self))"
  shows "wait_for_device_loop n (self, w) =
           (Inr False,
            (self, w\<lparr>trace := poll_history p (timeout self) (trace w) n
                                @ [Print DeviceNotFound]\<rparr>))"
  using assms(3)
proof (induction n arbitrary: w)
  case 0
  show ?case by (simp add: print_def poll_history_def)
next
  case (Suc n)
  let ?t = "timeout self"
  let ?oc = "subprocess_run w (trace w) [p, ''devices''] ?t"
  let ?w1 = "w\<lparr>trace := trace w @ [Run [p, ''devices''] ?t]\<rparr>"
  let ?w2 = "sleep 1 (print Dot ?w1)"
  have ex: "execute_command [''devices''] False (self, w) = (Inr (command_result ?oc), (self, ?w1))"
    using assms(1,2) by (rule execute_command_direct)
  have "\<not> poll_ready (subprocess_run w (poll_history p ?t (trace w) 0) [p, ''devices''] ?t)"
    using Suc.prems by blast
  then have nr: "\<not> str_in ''device\<newline>'' (output' (command_result ?oc))"
    by (simp add: poll_ready_def poll_history_def)
  have step: "wait_for_device_loop (Suc n) (self, w) = wait_for_device_loop n (self, ?w2)"
    using nr by (simp add: ex)
  have t2: "trace ?w2 = trace w @ [Run [p, ''devices''] ?t, Print Dot, Sleep 1]"
    by (simp add: sleep_def print_def)
  have "\<forall>i<n. \<not> poll_ready
           (subprocess_run ?w2 (poll_history p ?t (trace ?w2) i) [p, ''devices''] ?t)"
  proof (intro allI impI)
    fix i assume "i < n"
    then have "\<not> poll_ready
           (subprocess_run w (poll_history p ?t (trace w) (Suc i)) [p, ''devices''] ?t)"
      using Suc.prems by simp
    then show "\<not> poll_ready
           (subprocess_run ?w2 (poll_history p ?t (trace ?w2) i) [p, ''devices''] ?t)"
      unfolding t2 poll_history_Suc by (simp add: sleep_def print_def)
  qed
  from Suc.IH[OF this] show ?case
    unfolding step t2 poll_history_Suc by (simp add: sleep_def print_def)
qed

lemma invocations_poll_history:
  "length (filter is_Run (poll_history p t h0 n)) = length (filter is_Run h0) + n"
  by (induction n arbitrary: h0) (simp_all add: poll_history_Suc, simp add: poll_history_def)

lemma wait_for_device_loop_self:
  "fst (snd (wait_for_device_loop n (self, w))) = self"
proof (cases "adb_path self = None \<or> adb_path self = Some []")
  case True
  then have "execute_command [''devices''] False (self, w) = (Inl (Exception ''ADB not found''), (self, w))"
    by (rule execute_command_not_found)
  then show ?thesis
    by (cases n) (simp_all)
next
  case False
  then obtain p where "adb_path self = Some p" "p \<noteq> []" by auto
  from wait_for_device_loop_trace[OF this, of n w] show ?thesis by auto
qed

lemma wait_for_device_trace:
  assumes "adb_path self = Some p" "p \<noteq> []"
  shows "\<exists>b es. wait_for_device m (self, w) = (Inr b, (self, w\<lparr>trace := trace w @ es\<rparr>))
           \<and> length (filter is_Run es) \<le> nat m
           \<and> (\<forall>e \<in> set es. is_Run e \<longrightarrow> e = Run [p, ''devices''] (timeout self))"
proof -
  let ?w0 = "print WaitingForDevice w"
  from wait_for_device_loop_trace[OF assms, of "nat m" ?w0] obtain b es where
    L: "wait_for_device_loop (nat m) (self, ?w0) = (Inr b, (self, ?w0\<lparr>trace := trace ?w0 @ es\<rparr>))"
       "length (filter is_Run es) \<le> nat m"
       "\<forall>e \<in> set es. is_Run e \<longrightarrow> e = Run [p, ''devices''] (timeout self)"
    by blast
  then show ?thesis
    by (intro exI[of _ b] exI[of _ "Print WaitingForDevice # es"])
       (simp add: wait_for_device.simps print_def)
qed

lemma execute_command_waiting:
  assumes "adb_path self = Some p" "p \<noteq> []"
  shows "\<exists>es. execute_command command True (self, w) =
           (Inr (command_result (subprocess_run w (trace w @ es) (p # command) (timeout self))),
            (self, w\<lparr>trace := trace w @ es @ [Run (p # command) (timeout self)]\<rparr>))
           \<and> length (filter is_Run es) \<le> 30
           \<and> (\<forall>e \<in> set es. is_Run e \<longrightarrow> e = Run [p, ''devices''] (timeout self))"
proof -
  from wait_for_device_trace[OF assms, of 30 w] obtain b es where
    W: "wait_for_device 30 (self, w) = (Inr b, (self, w\<lparr>trace := trace w @ es\<rparr>))"
       "length (filter is_Run es) \<le> 30"
       "\<forall>e \<in> set es. is_Run e \<longrightarrow> e = Run [p, ''devices''] (timeout self)"
    by auto
  have "execute_command command True (self, w) =
           (Inr (command_result (subprocess_run w (trace w @ es) (p # command) (timeout self))),
            (self, w\<lparr>trace := trace w @ es @ [Run (p # command) (timeout self)]\<rparr>))"
    using assms
    by (simp add: execute_command.simps W(1) spawn_def command_result_def
             split: proc_outcome.split)
  with W(2,3) show ?thesis by blast
qed

lemma execute_command_trace:
  assumes "adb_path self = Some p" "p \<noteq> []"
  shows "\<exists>es. execute_command command wfd (self, w) =
           (Inr (command_result (subprocess_run w (trace w @ es) (p # command) (timeout self))),
            (self, w\<lparr>trace := trace w @ es @ [Run (p # command) (timeout self)]\<rparr>))
           \<and> (\<not> wfd \<longrightarrow> es = [])
           \<and> length (filter is_Run es) \<le> 30
           \<and> (\<forall>e \<in> set es. is_Run e \<longrightarrow> e = Run [p, ''devices''] (timeout self))"
proof (cases wfd)
  case True
  with execute_command_waiting[OF assms, of command w] show ?thesis by auto
next
  case False
  with execute_command_direct[OF assms, of command w] show ?thesis
    by (intro exI[of _ "[]"]) simp
qed

lemma execute_command_self:
  "fst (snd (execute_command command wfd (self, w))) = self"
proof (cases "adb_path self = None \<or> adb_path self = Some []")
  case True
  from execute_command_not_found[OF this] show ?thesis by simp
next
  case False
  then obtain p where "adb_path self = Some p" "p \<noteq> []" by auto
  from execute_command_trace[OF this, of command wfd w] show ?thesis by auto
qed

lemma wait_for_device_loop_found:
  assumes "adb_path self = Some p" "p \<noteq> []"
    and "k < n"
    and "\<forall>i<k. \<not> poll_ready
           (subprocess_run w (poll_history p (timeout self) (trace w) i) [p, ''devices'']
              (timeout self))"
    and "poll_ready
           (subprocess_run w (poll_history p (timeout self) (trace w) k) [p, ''devices'']
              (timeout self))"
  shows "wait_for_device_loop n (self, w) =
           (Inr True,
            (self, w\<lparr>trace := poll_history p (timeout self) (trace w) k
                      @ [Run [p, ''devices''] (timeout self), Print DeviceConnected]\<rparr>))"
  using assms(3,4,5)
proof (induction k arbitrary: n w)
  case 0
  then obtain m where n: "n = Suc m" by (cases n) auto
  let ?t = "timeout self"
  let ?oc = "subprocess_run w (trace w) [p, ''devices''] ?t"
  let ?w1 = "w\<lparr>trace := trace w @ [Run [p, ''devices''] ?t]\<rparr>"
  have ex: "execute_command [''devices''] False (self, w) = (Inr (command_result ?oc), (self, ?w1))"
    using assms(1,2) by (rule execute_command_direct)
  from "0.prems"(3) have "str_in ''device\<newline>'' (output' (command_result ?oc))"
    by (simp add: poll_ready_def poll_history_def)
  then show ?case
    unfolding n by (simp add: ex print_def poll_history_def)
next
  case (Suc k)
  then obtain m where n: "n = Suc m" and km: "k < m" by (cases n) auto
  let ?t = "timeout self"
  let ?oc = "subprocess_run w (trace w) [p, ''devices''] ?t"
  let ?w1 = "w\<lparr>trace := trace w @ [Run [p, ''devices''] ?t]\<rparr>"
  let ?w2 = "sleep 1 (print Dot ?w1)"
  have ex: "execute_command [''devices''] False (self, w) = (Inr (command_result ?oc), (self, ?w1))"
    using assms(1,2) by (rule execute_command_direct)
  have "\<not> poll_ready (subprocess_run w (poll_history p ?t (trace w) 0) [p, ''devices''] ?t)"
    using Suc.prems(2) by blast
  then have nr: "\<not> str_in ''device\<newline>'' (output' (command_result ?oc))"
    by (simp add: poll_ready_def poll_history_def)
  have step: "wait_for_device_loop (Suc m) (self, w) = wait_for_device_loop m (self, ?w2)"
    using nr by (simp add: ex)
  have t2: "trace ?w2 = trace w @ [Run [p, ''devices''] ?t, Print Dot, Sleep 1]"
    by (simp add: sleep_def print_def)
  have no: "\<forall>i<k. \<not> poll_ready
           (subprocess_run ?w2 (poll_history p ?t (trace ?w2) i) [p, ''devices''] ?t)"
  proof (intro allI impI)
    fix i assume "i < k"
    then have "\<not> poll_ready
           (subprocess_run w (poll_history p ?t (trace w) (Suc i)) [p, ''devices''] ?t)"
      using Suc.prems(2) by simp
    then show "\<not> poll_ready
           (subprocess_run ?w2 (poll_history p ?t (trace ?w2) i) [p, ''devices''] ?t)"
      unfolding t2 poll_history_Suc by (simp add: sleep_def print_def)
  qed
  have yes: "poll_ready
           (subprocess_run ?w2 (poll_history p ?t (trace ?w2) k) [p, ''devices''] ?t)"
    using Suc.prems(3) unfolding t2 poll_history_Suc by (simp add: sleep_def print_def)
  from Suc.IH[OF km no yes] show ?case
    unfolding n step t2 poll_history_Suc by (simp add: sleep_def print_def)
qed

subsection \<open>Gathering device properties\<close>

lemma get_device_info_loop_gathers:
  assumes "adb_path self = Some p" "p \<noteq> []" and "distinct (map snd cs)"
  shows "\<exists>info'. get_device_info_loop cs info (self, w) =
            (Inr info', (self, w\<lparr>trace := query_history p (timeout self) (trace w) cs (length cs)\<rparr>))
          \<and> (\<forall>k. k \<notin> snd ` set cs \<longrightarrow> info' k = info k)
          \<and> (\<forall>i < length cs. info' (snd (cs ! i)) =
                (case query_value w p (timeout self) cs i of
                   None \<Rightarrow> info (snd (cs ! i)) | Some v \<Rightarrow> Some v))"
  using assms(3)
proof (induction cs arbitrary: info w)
  case Nil
  show ?case by (simp add: query_history_def)
next
  case (Cons c cs)
  obtain cmd key where c: "c = (cmd, key)" by (cases c)
  let ?t = "timeout self"
  let ?r = "command_result (subprocess_run w (trace w) (p # split cmd) ?t)"
  let ?w1 = "w\<lparr>trace := trace w @ [Run (p # split cmd) ?t]\<rparr>"
  let ?info1 = "if success ?r \<and> output' ?r \<noteq> [] then info(key \<mapsto> strip (output' ?r)) else info"
  have ex: "execute_command (split cmd) False (self, w) = (Inr ?r, (self, ?w1))"
    using assms(1,2) by (rule execute_command_direct)
  have step: "get_device_info_loop (c # cs) info (self, w) = get_device_info_loop cs ?info1 (self, ?w1)"
    by (simp add: c ex)
  from Cons.prems have d: "distinct (map snd cs)" and knew: "key \<notin> snd ` set cs"
    by (auto simp: c)
  from Cons.IH[OF d, of ?info1 ?w1] obtain info' where
    IH: "get_device_info_loop cs ?info1 (self, ?w1) =
            (Inr info', (self, ?w1\<lparr>trace := query_history p ?t (trace ?w1) cs (length cs)\<rparr>))"
        "\<forall>k. k \<notin> snd ` set cs \<longrightarrow> info' k = ?info1 k"
        "\<forall>i < length cs. info' (snd (cs ! i)) =
            (case query_value ?w1 p ?t cs i of None \<Rightarrow> ?info1 (snd (cs ! i)) | Some v \<Rightarrow> Some v)"
    by blast
  have h: "\<And>i. query_history p ?t (trace ?w1) cs i = query_history p ?t (trace w) (c # cs) (Suc i)"
    by (simp add: query_history_def query_event_def c)
  have out: "output' ?r \<noteq> [] \<Longrightarrow> strip (output' ?r) = output' ?r"
    by (cases "subprocess_run w (trace w) (p # split cmd) ?t")
       (simp_all add: command_result_def strip_idem)
  have 1: "get_device_info_loop (c # cs) info (self, w) =
            (Inr info', (self, w\<lparr>trace := query_history p ?t (trace w) (c # cs) (length (c # cs))\<rparr>))"
    unfolding step IH(1) h by simp
  have 2: "\<forall>k. k \<notin> snd ` set (c # cs) \<longrightarrow> info' k = info k"
    using IH(2) by (auto simp: c)
  have 3: "\<forall>i < length (c # cs). info' (snd ((c # cs) ! i)) =
             (case query_value w p ?t (c # cs) i of
                None \<Rightarrow> info (snd ((c # cs) ! i)) | Some v \<Rightarrow> Some v)"
  proof (intro allI impI)
    fix i assume i: "i < length (c # cs)"
    show "info' (snd ((c # cs) ! i)) =
             (case query_value w p ?t (c # cs) i of
                None \<Rightarrow> info (snd ((c # cs) ! i)) | Some v \<Rightarrow> Some v)"
    proof (cases i)
      case 0
      have q0: "query_value w p ?t (c # cs) 0 =
                  (if success ?r \<and> output' ?r \<noteq> [] then Some (output' ?r) else None)"
        by (simp add: query_value_def query_history_def c Let_def)
      have "info' key = ?info1 key" using IH(2) knew by blast
      also have "\<dots> = (case query_value w p ?t (c # cs) 0 of
                None \<Rightarrow> info key | Some v \<Rightarrow> Some v)"
        unfolding q0 using out by simp
      finally show ?thesis unfolding 0 c by (simp split: option.split)
    next
      case (Suc j)
      with i have j: "j < length cs" by simp
      then have "snd (cs ! j) \<in> snd ` set cs" by simp
      with knew have ne: "snd (cs ! j) \<noteq> key" by auto
      have q: "query_value ?w1 p ?t cs j = query_value w p ?t (c # cs) (Suc j)"
        unfolding query_value_def h by simp
      from IH(3) j have "info' (snd (cs ! j)) =
            (case query_value ?w1 p ?t cs j of None \<Rightarrow> ?info1 (snd (cs ! j)) | Some v \<Rightarrow> Some v)"
        by blast
      also have "\<dots> = (case query_value w p ?t (c # cs) (Suc j) of
                None \<Rightarrow> info (snd (cs ! j)) | Some v \<Rightarrow> Some v)"
        unfolding q using ne by (simp split: option.split)
      finally show ?thesis unfolding Suc by (simp split: option.split)
    qed
  qed
  from 1 2 3 show ?case by blast
qed

lemma split_commands:
  "map (split \<circ> fst) commands =
     [[''shell'', ''getprop'', ''ro.product.model''],
      [''shell'', ''getprop'', ''ro.build.version.release''],
      [''shell'', ''getprop'', ''ro.build.version.security_patch''],
      [''shell'', ''getprop'', ''ro.product.manufacturer''],
      [''shell'', ''getprop'', ''ro.serialno''],
      [''shell'', ''getprop'', ''ro.bootloader''],
      [''shell'', ''getprop'', ''ro.hardware'']]"
  by (simp add: commands_def split_def isspace_def)

lemma commands_keys:
  "map snd commands = [''Model'', ''Android Version'', ''Security Patch'', ''Manufacturer'',
     ''Serial Number'', ''Bootloader'', ''Hardware'']"
  by (simp add: commands_def)

lemma length_commands: "length commands = 7"
  by (simp add: commands_def)

lemma distinct_commands: "distinct (map snd commands)"
  unfolding commands_keys by simp

lemma get_device_info_loop_commands:
  assumes "adb_path self = Some p" and "p \<noteq> []"
  shows "\<exists>info. get_device_info_loop commands Map.empty (self, w) =
            (Inr info, (self, w\<lparr>trace := query_history p (timeout self) (trace w) commands (length commands)\<rparr>))
       \<and> (\<forall>k. k \<notin> snd ` set commands \<longrightarrow> info k = Map.empty k)
       \<and> (\<forall>i < length commands. info (snd (commands ! i)) =
          (case query_value w p (timeout self) commands i of
             None \<Rightarrow> Map.empty (snd (commands ! i)) | Some v \<Rightarrow> Some v))"
  by (rule get_device_info_loop_gathers[OF assms distinct_commands])

lemma query_values_getprop_world:
  "query_value getprop_world ''adb'' 30 commands 0 = Some ''Pixel 7''"
  "query_value getprop_world ''adb'' 30 commands 1 = Some ''14''"
  "query_value getprop_world ''adb'' 30 commands 2 = Some ''2024-01-05''"
  "query_value getprop_world ''adb'' 30 commands 3 = Some ''Google''"
  "query_value getprop_world ''adb'' 30 commands 4 = None"
  "query_value getprop_world ''adb'' 30 commands 5 = None"
  "query_value getprop_world ''adb'' 30 commands 6 = None"
  by (simp_all add: query_value_def commands_def split_def isspace_def getprop_world_def
        world_of_def command_result_def strip_def)

lemma commands_nth_keys:
  "snd (commands ! 0) = ''Model''"
  "snd (commands ! 1) = ''Android Version''"
  "snd (commands ! 2) = ''Security Patch''"
  "snd (commands ! 3) = ''Manufacturer''"
  "snd (commands ! 4) = ''Serial Number''"
  "snd (commands ! 5) = ''Bootloader''"
  "snd (commands ! 6) = ''Hardware''"
  by (simp_all add: commands_def)

lemma query_history_commands:
  "query_history p t [] commands (length commands) =
     [Run [p, ''shell'', ''getprop'', ''ro.product.model''] t,
      Run [p, ''shell'', ''getprop'', ''ro.build.version.release''] t,
      Run [p, ''shell'', ''getprop'', ''ro.build.version.security_patch''] t,
      Run [p, ''shell'', ''getprop'', ''ro.product.manufacturer''] t,
      Run [p, ''shell'', ''getprop'', ''ro.serialno''] t,
      Run [p, ''shell'', ''getprop'', ''ro.bootloader''] t,
      Run [p, ''shell'', ''getprop'', ''ro.hardware''] t]"
proof -
  have "query_history p t [] commands (length commands) = map (\<lambda>c. Run (p # c) t) (map (split \<circ> fst) commands)"
    by (simp add: query_history_def query_event_def)
  then show ?thesis unfolding split_commands by simp
qed

subsection \<open>Sample worlds and the mode table\<close>

lemma world_of_sel:
  "trace (world_of f) = []" "subprocess_run (world_of f) = f"
  "home_path (world_of f) rel = ''/home/user/'' @ rel"
  by (simp_all add: world_of_def)

lemma map_of_modes:
  "map_of modes mode =
     (if mode = ''system'' then Some []
      else if mode = ''recovery'' then Some ''recovery''
      else if mode = ''bootloader'' then Some ''bootloader''
      else if mode = ''fastboot'' then Some ''bootloader''
      else if mode = ''download'' then Some ''download''
      else if mode = ''sideload'' then Some ''sideload''
      else None)"
  by (simp add: modes_def)

lemma distinct_modes: "distinct (map fst modes)"
  by (simp add: modes_def)

subsection \<open>Probing the candidates\<close>

lemma check_adb_path_probe:
  "check_adb_path c w =
     ((case subprocess_run w (trace w) [c, ''--version''] 5 of
         Completed rc out err \<Rightarrow> rc = 0
       | TimeoutExpired \<Rightarrow> False
       | OtherException e \<Rightarrow> False),
      w\<lparr>trace := trace w @ [Run [c, ''--version''] 5]\<rparr>)"
  by (simp add: check_adb_path_def spawn_def split: proc_outcome.split)

lemma probe_ok_0:
  "probe_ok w (c # cs) 0 = fst (check_adb_path c w)"
  by (simp add: probe_ok_def probe_history_def check_adb_path_probe)

lemma probe_ok_Suc:
  "probe_ok w (c # cs) (Suc i) = probe_ok (snd (check_adb_path c w)) cs i"
  by (simp add: probe_ok_def probe_history_def check_adb_path_probe)

lemma probe_history_Suc:
  "probe_history (c # cs) h0 (Suc i) = probe_history cs (h0 @ [Run [c, ''--version''] 5]) i"
  by (simp add: probe_history_def)

lemma find_adb_loop_none:
  "\<forall>i < length cs. \<not> probe_ok w cs i \<Longrightarrow>
   find_adb_loop cs w = (None, w\<lparr>trace := probe_history cs (trace w) (length cs)\<rparr>)"
proof (induction cs arbitrary: w)
  case Nil
  show ?case by (simp add: probe_history_def)
next
  case (Cons c cs)
  let ?w1 = "w\<lparr>trace := trace w @ [Run [c, ''--version''] 5]\<rparr>"
  from Cons.prems have "\<not> probe_ok w (c # cs) 0" by blast
  then have f: "check_adb_path c w = (False, ?w1)"
    unfolding probe_ok_0 by (simp add: check_adb_path_probe)
  have "\<forall>i < length cs. \<not> probe_ok ?w1 cs i"
  proof (intro allI impI)
    fix i assume "i < length cs"
    then have "\<not> probe_ok w (c # cs) (Suc i)" using Cons.prems by simp
    then show "\<not> probe_ok ?w1 cs i" unfolding probe_ok_Suc by (simp add: f)
  qed
  from Cons.IH[OF this] show ?case
    by (simp add: f probe_history_Suc)
qed

lemma find_adb_loop_first:
  "i < length cs \<Longrightarrow> probe_ok w cs i \<Longrightarrow> \<forall>j < i. \<not> probe_ok w cs j \<Longrightarrow>
   find_adb_loop cs w = (Some (cs ! i), w\<lparr>trace := probe_history cs (trace w) (Suc i)\<rparr>)"
proof (induction cs arbitrary: w i)
  case Nil
  then show ?case by simp
next
  case (Cons c cs)
  let ?w1 = "w\<lparr>trace := trace w @ [Run [c, ''--version''] 5]\<rparr>"
  show ?case
  proof (cases i)
    case 0
    with Cons.prems have "fst (check_adb_path c w)" by (simp add: probe_ok_0)
    then have "check_adb_path c w = (True, ?w1)" by (simp add: check_adb_path_probe)
    then show ?thesis using 0 by (simp add: probe_history_def)
  next
    case (Suc k)
    with Cons.prems have "\<not> probe_ok w (c # cs) 0" by blast
    then have f: "check_adb_path c w = (False, ?w1)"
      unfolding probe_ok_0 by (simp add: check_adb_path_probe)
    from Cons.prems Suc have k: "k < length cs" by simp
    from Cons.prems Suc have ok: "probe_ok ?w1 cs k" by (simp add: probe_ok_Suc f)
    have no: "\<forall>j < k. \<not> probe_ok ?w1 cs j"
    proof (intro allI impI)
      fix j assume "j < k"
      then have "\<not> probe_ok w (c # cs) (Suc j)" using Cons.prems Suc by simp
      then show "\<not> probe_ok ?w1 cs j" unfolding probe_ok_Suc by (simp add: f)
    qed
    from Cons.IH[OF k ok no] show ?thesis
      unfolding Suc by (simp add: f probe_history_Suc)
  qed
qed

lemma length_possible_paths: "length (possible_paths w) = 6"
  by (simp add: possible_paths_def)

text \<open>
  The constructor never stores the empty text: \<^verbatim>\<open>find_adb\<close> returns one of its
  candidates or \<^verbatim>\<open>None\<close>, and \<^verbatim>\<open>pathlib\<close> writes no path as the empty text (the
  empty path is written as a dot).
\<close>

lemma find_adb_loop_member:
  "fst (find_adb_loop cs w) = Some c \<Longrightarrow> c \<in> set cs"
proof (induction cs arbitrary: w)
  case Nil
  then show ?case by simp
next
  case (Cons a cs)
  show ?case
  proof (cases "fst (check_adb_path a w)")
    case True
    then obtain w1 where "check_adb_path a w = (True, w1)"
      by (cases "check_adb_path a w") auto
    with Cons.prems show ?thesis by simp
  next
    case False
    then obtain w1 where "check_adb_path a w = (False, w1)"
      by (cases "check_adb_path a w") auto
    with Cons.prems have "fst (find_adb_loop cs w1) = Some c" by simp
    from Cons.IH[OF this] show ?thesis by simp
  qed
qed

lemma init_adb_path_nonempty:
  assumes "\<forall>rel. home_path w rel \<noteq> []"
  shows "adb_path (fst (init w)) \<noteq> Some []"
proof
  assume "adb_path (fst (init w)) = Some []"
  then have "fst (find_adb w) = Some []"
    by (simp add: init_def split: prod.splits)
  then have "[] \<in> set (possible_paths w)"
    unfolding find_adb_def by (rule find_adb_loop_member)
  then have "home_path w ''AppData/Local/Android/Sdk/platform-tools/adb.exe'' = []
      \<or> home_path w ''Library/Android/sdk/platform-tools/adb'' = []"
    by (auto simp: possible_paths_def)
  with assms show False by blast
qed

subsection \<open>The object is never written\<close>

lemma execute_command_keeps_self:
  "\<exists>r w1. execute_command command wfd (self, w) = (r, (self, w1))"
proof -
  obtain r s1 w1 where e: "execute_command command wfd (self, w) = (r, (s1, w1))"
    by (metis prod.exhaust)
  with execute_command_self[of command wfd self w] have "s1 = self" by simp
  with e show ?thesis by blast
qed

lemma wait_for_device_self:
  "fst (snd (wait_for_device max_attempts (self, w))) = self"
  by (simp add: wait_for_device.simps wait_for_device_loop_self)

lemma get_device_info_loop_self:
  "fst (snd (get_device_info_loop cs info (self, w))) = self"
proof (induction cs arbitrary: info w)
  case Nil
  show ?case by simp
next
  case (Cons c cs)
  obtain cmd key where c: "c = (cmd, key)" by (cases c)
  from execute_command_keeps_self[of "split cmd" False self w] obtain r w1 where
    e: "execute_command (split cmd) False (self, w) = (r, (self, w1))" by blast
  show ?case
    by (cases r) (simp_all add: c e Cons.IH)
qed

lemma get_device_info_self:
  "fst (snd (get_device_info device_id (self, w))) = self"
  by (simp add: get_device_info_def get_device_info_loop_self)

lemma reboot_device_self:
  "fst (snd (reboot_device mode (self, w))) = self"
proof (cases "map_of modes mode")
  case None
  then show ?thesis by (simp add: reboot_device_def)
next
  case (Some target)
  define cmd where "cmd = [''reboot''] @ (if target \<noteq> [] then [target] else [])"
  from execute_command_keeps_self[of cmd False self w] obtain r w1 where
    e: "execute_command cmd False (self, w) = (r, (self, w1))" by blast
  have "reboot_device mode (self, w) =
          (case execute_command cmd False (self, w) of
             (Inl e, st1) \<Rightarrow> (Inl e, st1)
           | (Inr result, (self1, w1)) \<Rightarrow>
               if success result
               then (Inr True, (self1, sleep 5 (print (Rebooting mode) w1)))
               else (Inr False, (self1, w1)))"
    unfolding reboot_device_def Let_def cmd_def by (simp only: Some option.case prod.case)
  then show ?thesis
    by (cases r) (simp_all add: e)
qed

lemma is_device_rooted_self:
  "fst (snd (is_device_rooted (self, w))) = self"
proof -
  from execute_command_keeps_self[of "[''shell'', ''su'', ''-c'', ''echo root_check'']" False self w]
  obtain r w1 where
    e1: "execute_command [''shell'', ''su'', ''-c'', ''echo root_check''] False (self, w) = (r, (self, w1))"
    by blast
  from execute_command_keeps_self[of "[''shell'', ''which'', ''su'']" False self w1]
  obtain r2 w2 where
    e2: "execute_command [''shell'', ''which'', ''su''] False (self, w1) = (r2, (self, w2))"
    by blast
  show ?thesis
    by (cases r; cases r2) (simp_all add: is_device_rooted_def e1 e2)
qed

lemma push_file_self:
  "fst (snd (push_file local_path device_path (self, w))) = self"
proof -
  from execute_command_keeps_self[of "[''push'', local_path, device_path]" False self w]
  obtain r w1 where
    e: "execute_command [''push'', local_path, device_path] False (self, w) = (r, (self, w1))"
    by blast
  show ?thesis
    by (cases r) (simp_all add: push_file_def e)
qed

lemma pull_file_self:
  "fst (snd (pull_file device_path local_path (self, w))) = self"
proof -
  from execute_command_keeps_self[of "[''pull'', device_path, local_path]" False self w]
  obtain r w1 where
    e: "execute_command [''pull'', device_path, local_path] False (self, w) = (r, (self, w1))"
    by blast
  show ?thesis
    by (cases r) (simp_all add: pull_file_def e)
qed

lemma shell_command_self:
  "fst (snd (shell_command command root (self, w))) = self"
  by (simp add: shell_command_def Let_def execute_command_self)

section \<open>The claims\<close>

subsection \<open>C1: what \<^verbatim>\<open>execute_command\<close> raises\<close>

text \<open>
  Claim C1. In a session whose resolved location is not the empty text,
  \<^verbatim>\<open>execute_command\<close> raises exactly when \<^verbatim>\<open>adb_path\<close> is \<^verbatim>\<open>None\<close>. With a
  location \<open>p\<close> it returns a result: its last event is the invocation of \<open>p\<close> followed
  by the arguments, and the result is decided by how that invocation ended at the
  history before it. A completed process gives its return code, zero or not; a timeout
  gives \<^verbatim>\<open>success False\<close>, return code -1 and the error text
  \<^verbatim>\<open>Command timed out\<close>; any other exception gives \<^verbatim>\<open>success False\<close>, return
  code -1 and the text of the exception.
\<close>

theorem execute_command_raises_only_without_adb:
  assumes "adb_path self \<noteq> Some []"
  shows "((\<exists>e. fst (execute_command command wfd (self, w)) = Inl e) \<longleftrightarrow> adb_path self = None)
    \<and> (\<forall>p. adb_path self = Some p \<longrightarrow>
         (\<exists>r w'. execute_command command wfd (self, w) = (Inr r, (self, w'))
            \<and> trace w' \<noteq> [] \<and> last (trace w') = Run (p # command) (timeout self)
            \<and> (case subprocess_run w (butlast (trace w')) (p # command) (timeout self) of
                 Completed rc out err \<Rightarrow> returncode r = rc
               | TimeoutExpired \<Rightarrow>
                   r = \<lparr>success = False, output' = [], error' = ''Command timed out'',
                        returncode = - 1\<rparr>
               | OtherException e \<Rightarrow>
                   r = \<lparr>success = False, output' = [], error' = e, returncode = - 1\<rparr>)))"
proof (cases "adb_path self")
  case None
  then show ?thesis by (simp add: execute_command_not_found)
next
  case (Some p)
  with assms have p: "adb_path self = Some p" "p \<noteq> []" by auto
  from execute_command_trace[OF p, of command wfd w] obtain es where
    E: "execute_command command wfd (self, w) =
          (Inr (command_result (subprocess_run w (trace w @ es) (p # command) (timeout self))),
           (self, w\<lparr>trace := trace w @ es @ [Run (p # command) (timeout self)]\<rparr>))"
    by blast
  let ?w' = "w\<lparr>trace := trace w @ es @ [Run (p # command) (timeout self)]\<rparr>"
  have b: "butlast (trace ?w') = trace w @ es"
    by (simp add: butlast_append)
  have "case subprocess_run w (butlast (trace ?w')) (p # command) (timeout self) of
                 Completed rc out err \<Rightarrow> returncode (command_result (subprocess_run w (trace w @ es) (p # command) (timeout self))) = rc
               | TimeoutExpired \<Rightarrow>
                   command_result (subprocess_run w (trace w @ es) (p # command) (timeout self)) = \<lparr>success = False, output' = [], error' = ''Command timed out'',
                        returncode = - 1\<rparr>
               | OtherException e \<Rightarrow>
                   command_result (subprocess_run w (trace w @ es) (p # command) (timeout self)) = \<lparr>success = False, output' = [], error' = e, returncode = - 1\<rparr>"
    unfolding b by (simp add: command_result_def split: proc_outcome.split)
  with E p show ?thesis by simp
qed

theorem execute_command_raises_only_without_adb_witness:
  "adb_path demo_self \<noteq> Some []
   \<and> fst (execute_command [''devices''] False (demo_self, world_of (\<lambda>h argv t. TimeoutExpired)))
       = Inr \<lparr>success = False, output' = [], error' = ''Command timed out'', returncode = - 1\<rparr>
   \<and> fst (execute_command [''shell'', ''id''] False
            (demo_self, world_of (\<lambda>h argv t. OtherException ''Permission denied'')))
       = Inr \<lparr>success = False, output' = [], error' = ''Permission denied'', returncode = - 1\<rparr>
   \<and> adb_path no_adb_self \<noteq> Some []
   \<and> fst (execute_command [''devices''] False (no_adb_self, world_of (\<lambda>h argv t. TimeoutExpired)))
       = Inl (Exception ''ADB not found'')"
proof -
  have h: "adb_path demo_self \<noteq> Some []" "adb_path no_adb_self \<noteq> Some []"
    by (simp_all add: demo_self_def no_adb_self_def)
  show ?thesis
    using h
      execute_command_raises_only_without_adb[OF h(1), of "[''devices'']" False
        "world_of (\<lambda>h argv t. TimeoutExpired)"]
      execute_command_raises_only_without_adb[OF h(1), of "[''shell'', ''id'']" False
        "world_of (\<lambda>h argv t. OtherException ''Permission denied'')"]
      execute_command_raises_only_without_adb[OF h(2), of "[''devices'']" False
        "world_of (\<lambda>h argv t. TimeoutExpired)"]
    by (simp add: demo_self_def no_adb_self_def world_of_def execute_command.simps spawn_def)
qed

subsection \<open>C2: normal completion\<close>

text \<open>
  Claim C2. When the process of the final invocation completes with return code \<open>rc\<close>
  and the captured streams \<open>out\<close> and \<open>err\<close>, the result has \<^verbatim>\<open>success\<close> exactly
  when \<open>rc = 0\<close>, for every integer \<open>rc\<close>, carries \<open>rc\<close> as its return code, and its
  output and error are \<open>out\<close> and \<open>err\<close> trimmed of leading and trailing whitespace.
\<close>

theorem execute_command_normal_completion:
  assumes "adb_path self = Some p" and "p \<noteq> []"
    and "execute_command command wfd (self, w) = (res, (self', w'))"
    and "subprocess_run w (butlast (trace w')) (p # command) (timeout self) = Completed rc out err"
  shows "\<exists>r. res = Inr r \<and> (success r \<longleftrightarrow> rc = 0) \<and> returncode r = rc
           \<and> output' r = strip out \<and> error' r = strip err
           \<and> trimmed_of out (output' r) \<and> trimmed_of err (error' r)"
proof -
  from execute_command_trace[OF assms(1,2), of command wfd w] obtain es where
    E: "execute_command command wfd (self, w) =
          (Inr (command_result (subprocess_run w (trace w @ es) (p # command) (timeout self))),
           (self, w\<lparr>trace := trace w @ es @ [Run (p # command) (timeout self)]\<rparr>))"
    by blast
  with assms(3) have w': "w' = w\<lparr>trace := trace w @ es @ [Run (p # command) (timeout self)]\<rparr>"
    and res: "res = Inr (command_result (subprocess_run w (trace w @ es) (p # command) (timeout self)))"
    by auto
  have "butlast (trace w') = trace w @ es"
    unfolding w' by (simp add: butlast_append)
  with assms(4) have "res = Inr (command_result (Completed rc out err))"
    using res by simp
  then show ?thesis
    by (simp add: command_result_def strip_trimmed)
qed

theorem execute_command_normal_completion_witness:
  "adb_path demo_self = Some ''adb'' \<and> ''adb'' \<noteq> []
   \<and> fst (execute_command [''shell'', ''ls'', ''/nowhere''] False
            (demo_self, world_of (\<lambda>h argv t. Completed 1 '''' ''ls: /nowhere: No such file or directory\<newline>'')))
       = Inr \<lparr>success = False, output' = [],
              error' = ''ls: /nowhere: No such file or directory'', returncode = 1\<rparr>
   \<and> fst (execute_command [''shell'', ''echo'', ''hi''] False
            (demo_self, world_of (\<lambda>h argv t. Completed 0 ''  hi \<newline>'' [])))
       = Inr \<lparr>success = True, output' = ''hi'', error' = [], returncode = 0\<rparr>"
proof -
  let ?w1 = "world_of (\<lambda>h argv t. Completed 1 '''' ''ls: /nowhere: No such file or directory\<newline>'')"
  let ?w2 = "world_of (\<lambda>h argv t. Completed 0 ''  hi \<newline>'' [])"
  let ?c1 = "[''shell'', ''ls'', ''/nowhere'']"
  let ?c2 = "[''shell'', ''echo'', ''hi'']"
  have p: "adb_path demo_self = Some ''adb''" "''adb'' \<noteq> []"
    by (simp_all add: demo_self_def)
  have 1: "subprocess_run ?w1 (butlast (trace (snd (snd (execute_command ?c1 False (demo_self, ?w1))))))
             (''adb'' # ?c1) (timeout demo_self)
           = Completed 1 '''' ''ls: /nowhere: No such file or directory\<newline>''"
    by (simp add: world_of_def)
  have 2: "subprocess_run ?w2 (butlast (trace (snd (snd (execute_command ?c2 False (demo_self, ?w2))))))
             (''adb'' # ?c2) (timeout demo_self)
           = Completed 0 ''  hi \<newline>'' []"
    by (simp add: world_of_def)
  from execute_command_normal_completion[where self = demo_self and p = "''adb''"
         and command = ?c1 and wfd = False and w = ?w1
         and res = "fst (execute_command ?c1 False (demo_self, ?w1))"
         and self' = "fst (snd (execute_command ?c1 False (demo_self, ?w1)))"
         and w' = "snd (snd (execute_command ?c1 False (demo_self, ?w1)))", OF p _ 1]
       execute_command_normal_completion[where self = demo_self and p = "''adb''"
         and command = ?c2 and wfd = False and w = ?w2
         and res = "fst (execute_command ?c2 False (demo_self, ?w2))"
         and self' = "fst (snd (execute_command ?c2 False (demo_self, ?w2)))"
         and w' = "snd (snd (execute_command ?c2 False (demo_self, ?w2)))", OF p _ 2]
  show ?thesis
    using p by (auto simp: strip_def isspace_def)
qed

subsection \<open>C3: detecting a ready device\<close>

text \<open>
  Claim C3. A device list with a line for a ready device should make
  \<^verbatim>\<open>wait_for_device\<close> return \<^verbatim>\<open>True\<close> on that poll. The method looks for
  \<^verbatim>\<open>device\<close> followed by a line feed in the trimmed output, and trimming has removed the
  line feed after the last device line. With one device attached, appearing at the
  third poll, the test fails on every poll and \<^verbatim>\<open>wait_for_device(5)\<close> returns
  \<^verbatim>\<open>False\<close> after five invocations.
\<close>

theorem wait_for_device_misses_single_device:
  "\<not> poll_ready (Completed 0 devices_single [])
   \<and> fst (wait_for_device 5 (demo_self, late_device_world)) = Inr False
   \<and> length (invocations (snd (snd (wait_for_device 5 (demo_self, late_device_world))))) = 5"
proof -
  have p: "adb_path demo_self = Some ''adb''" "''adb'' \<noteq> []"
    by (simp_all add: demo_self_def)
  have s: "\<not> poll_ready (Completed 0 devices_single [])"
    by (simp add: poll_ready_def command_result_def devices_single_def strip_def isspace_def)
  have n: "\<not> poll_ready (Completed 0 devices_none [])"
    by (simp add: poll_ready_def command_result_def devices_none_def strip_def isspace_def)
  let ?w0 = "print WaitingForDevice late_device_world"
  have "\<forall>i<5. \<not> poll_ready
           (subprocess_run ?w0 (poll_history ''adb'' (timeout demo_self) (trace ?w0) i)
              [''adb'', ''devices''] (timeout demo_self))"
    using s n by (simp add: late_device_world_def world_of_def print_def)
  from wait_for_device_loop_never_ready[OF p this]
  have "wait_for_device 5 (demo_self, late_device_world) =
          (Inr False,
            (demo_self, ?w0\<lparr>trace := poll_history ''adb'' (timeout demo_self) (trace ?w0) 5
                                @ [Print DeviceNotFound]\<rparr>))"
    by (simp add: wait_for_device.simps)
  then show ?thesis
    using s
    by (simp add: invocations_def invocations_poll_history late_device_world_def world_of_def
          print_def)
qed

subsection \<open>C4: the wait is bounded\<close>

text \<open>
  Claim C4. With a resolved executable, \<^verbatim>\<open>wait_for_device(max_attempts)\<close> returns,
  after at most \<open>nat max_attempts\<close> process invocations (that is \<open>max_attempts\<close>, and
  none for a negative argument); each of them is the plain device-list invocation, and
  no wait is started inside the wait. When no poll passes the readiness test it returns
  \<^verbatim>\<open>False\<close> after exactly that many polls, each followed by a dot and a sleep of
  one second.
\<close>

theorem wait_for_device_bounded:
  assumes "adb_path self = Some p" and "p \<noteq> []"
  shows "(\<exists>b es. wait_for_device max_attempts (self, w) =
                   (Inr b, (self, w\<lparr>trace := trace w @ Print WaitingForDevice # es\<rparr>))
            \<and> length (filter is_Run es) \<le> nat max_attempts
            \<and> (\<forall>e \<in> set es. is_Run e \<longrightarrow> e = Run [p, ''devices''] (timeout self))
            \<and> Print WaitingForDevice \<notin> set es)
       \<and> ((\<forall>i < nat max_attempts. \<not> poll_ready
               (subprocess_run w
                  (poll_history p (timeout self) (trace w @ [Print WaitingForDevice]) i)
                  [p, ''devices''] (timeout self)))
            \<longrightarrow> wait_for_device max_attempts (self, w) =
                  (Inr False,
                   (self, w\<lparr>trace :=
                      poll_history p (timeout self) (trace w @ [Print WaitingForDevice])
                        (nat max_attempts)
                      @ [Print DeviceNotFound]\<rparr>)))"
proof (intro conjI impI)
  let ?w0 = "print WaitingForDevice w"
  from wait_for_device_loop_trace[OF assms, of "nat max_attempts" ?w0] obtain b es where
    L: "wait_for_device_loop (nat max_attempts) (self, ?w0) =
          (Inr b, (self, ?w0\<lparr>trace := trace ?w0 @ es\<rparr>))"
       "length (filter is_Run es) \<le> nat max_attempts"
       "\<forall>e \<in> set es. is_Run e \<longrightarrow> e = Run [p, ''devices''] (timeout self)"
       "Print WaitingForDevice \<notin> set es"
    by blast
  have "wait_for_device max_attempts (self, w) =
          (Inr b, (self, w\<lparr>trace := trace w @ Print WaitingForDevice # es\<rparr>))"
    using L(1) by (simp add: wait_for_device.simps print_def)
  with L(2,3,4)
  show "\<exists>b es. wait_for_device max_attempts (self, w) =
                   (Inr b, (self, w\<lparr>trace := trace w @ Print WaitingForDevice # es\<rparr>))
            \<and> length (filter is_Run es) \<le> nat max_attempts
            \<and> (\<forall>e \<in> set es. is_Run e \<longrightarrow> e = Run [p, ''devices''] (timeout self))
            \<and> Print WaitingForDevice \<notin> set es"
    by blast
next
  let ?w0 = "print WaitingForDevice w"
  assume "\<forall>i < nat max_attempts. \<not> poll_ready
               (subprocess_run w
                  (poll_history p (timeout self) (trace w @ [Print WaitingForDevice]) i)
                  [p, ''devices''] (timeout self))"
  then have "\<forall>i < nat max_attempts. \<not> poll_ready
               (subprocess_run ?w0 (poll_history p (timeout self) (trace ?w0) i)
                  [p, ''devices''] (timeout self))"
    by (simp add: print_def)
  from wait_for_device_loop_never_ready[OF assms this]
  show "wait_for_device max_attempts (self, w) =
                  (Inr False,
                   (self, w\<lparr>trace :=
                      poll_history p (timeout self) (trace w @ [Print WaitingForDevice])
                        (nat max_attempts)
                      @ [Print DeviceNotFound]\<rparr>))"
    by (simp add: wait_for_device.simps print_def)
qed

theorem wait_for_device_bounded_witness:
  "adb_path demo_self = Some ''adb'' \<and> ''adb'' \<noteq> []
   \<and> wait_for_device 2 (demo_self, world_of (\<lambda>h argv t. Completed 0 devices_none [])) =
       (Inr False,
        (demo_self,
         (world_of (\<lambda>h argv t. Completed 0 devices_none []))
           \<lparr>trace := [Print WaitingForDevice,
                      Run [''adb'', ''devices''] 30, Print Dot, Sleep 1,
                      Run [''adb'', ''devices''] 30, Print Dot, Sleep 1,
                      Print DeviceNotFound]\<rparr>))"
proof -
  let ?w = "world_of (\<lambda>h argv t. Completed 0 devices_none [])"
  have p: "adb_path demo_self = Some ''adb''" "''adb'' \<noteq> []"
    by (simp_all add: demo_self_def)
  have nr: "\<forall>i < nat 2. \<not> poll_ready
               (subprocess_run ?w
                  (poll_history ''adb'' (timeout demo_self) (trace ?w @ [Print WaitingForDevice]) i)
                  [''adb'', ''devices''] (timeout demo_self))"
    by (simp add: world_of_def poll_ready_def command_result_def devices_none_def strip_def
          isspace_def)
  have t: "timeout demo_self = 30" "trace ?w = []"
    by (simp_all add: demo_self_def world_of_def)
  from wait_for_device_bounded[OF p, of 2 ?w] nr
  have "wait_for_device 2 (demo_self, ?w) =
                  (Inr False,
                   (demo_self, ?w\<lparr>trace :=
                      poll_history ''adb'' (timeout demo_self) (trace ?w @ [Print WaitingForDevice])
                        (nat 2)
                      @ [Print DeviceNotFound]\<rparr>))"
    by blast
  then show ?thesis
    using p by (simp add: t poll_history_def numeral_2_eq_2)
qed

subsection \<open>C5: the invocation and the target device\<close>

text \<open>
  Claim C5. A request that addresses a specific device is invoked as the executable
  location, the device-serial selector and the arguments, and the property queries of
  \<^verbatim>\<open>get_device_info\<close> are issued against the device it is given. The first holds
  of a request that carries the selector: it is invoked as \<^verbatim>\<open>adb -s emulator-5556\<close>
  followed by its arguments. \<^verbatim>\<open>get_device_info\<close> does not use its
  \<^verbatim>\<open>device_id\<close>: called for \<^verbatim>\<open>emulator-5556\<close> it issues the seven plain
  \<^verbatim>\<open>getprop\<close> invocations, none with the selector, exactly as without a device.
\<close>

theorem get_device_info_ignores_device_id:
  "invocations (snd (snd (get_device_info (Some ''emulator-5556'') (demo_self, getprop_world)))) =
     [Run [''adb'', ''shell'', ''getprop'', ''ro.product.model''] 30,
      Run [''adb'', ''shell'', ''getprop'', ''ro.build.version.release''] 30,
      Run [''adb'', ''shell'', ''getprop'', ''ro.build.version.security_patch''] 30,
      Run [''adb'', ''shell'', ''getprop'', ''ro.product.manufacturer''] 30,
      Run [''adb'', ''shell'', ''getprop'', ''ro.serialno''] 30,
      Run [''adb'', ''shell'', ''getprop'', ''ro.bootloader''] 30,
      Run [''adb'', ''shell'', ''getprop'', ''ro.hardware''] 30]
   \<and> get_device_info (Some ''emulator-5556'') (demo_self, getprop_world) =
       get_device_info None (demo_self, getprop_world)
   \<and> invocations (snd (snd (execute_command
         [''-s'', ''emulator-5556'', ''shell'', ''getprop'', ''ro.product.model''] False
         (demo_self, getprop_world)))) =
     [Run [''adb'', ''-s'', ''emulator-5556'', ''shell'', ''getprop'', ''ro.product.model''] 30]"
proof -
  have p: "adb_path demo_self = Some ''adb''" "''adb'' \<noteq> []"
    by (simp_all add: demo_self_def)
  have t: "trace getprop_world = []" "timeout demo_self = 30"
    by (simp_all add: getprop_world_def world_of_def demo_self_def)
  from get_device_info_loop_commands[OF p, of getprop_world]
  have "trace (snd (snd (get_device_info (Some ''emulator-5556'') (demo_self, getprop_world))))
          = query_history ''adb'' 30 [] commands (length commands)"
    unfolding get_device_info_def t by auto
  then have 1: "invocations (snd (snd (get_device_info (Some ''emulator-5556'')
                   (demo_self, getprop_world)))) =
     [Run [''adb'', ''shell'', ''getprop'', ''ro.product.model''] 30,
      Run [''adb'', ''shell'', ''getprop'', ''ro.build.version.release''] 30,
      Run [''adb'', ''shell'', ''getprop'', ''ro.build.version.security_patch''] 30,
      Run [''adb'', ''shell'', ''getprop'', ''ro.product.manufacturer''] 30,
      Run [''adb'', ''shell'', ''getprop'', ''ro.serialno''] 30,
      Run [''adb'', ''shell'', ''getprop'', ''ro.bootloader''] 30,
      Run [''adb'', ''shell'', ''getprop'', ''ro.hardware''] 30]"
    unfolding invocations_def query_history_commands by simp
  have 2: "get_device_info (Some ''emulator-5556'') (demo_self, getprop_world) =
       get_device_info None (demo_self, getprop_world)"
    by (simp only: get_device_info_def)
  have 3: "invocations (snd (snd (execute_command
         [''-s'', ''emulator-5556'', ''shell'', ''getprop'', ''ro.product.model''] False
         (demo_self, getprop_world)))) =
     [Run [''adb'', ''-s'', ''emulator-5556'', ''shell'', ''getprop'', ''ro.product.model''] 30]"
    using execute_command_direct[OF p,
        of "[''-s'', ''emulator-5556'', ''shell'', ''getprop'', ''ro.product.model'']" getprop_world]
    by (simp add: invocations_def t)
  from 1 2 3 show ?thesis by (intro conjI)
qed

text \<open>
  What \<^verbatim>\<open>execute_command\<close> invokes in general: with a resolved executable \<open>p\<close>, the
  invocation for a request is \<open>p\<close> followed by the arguments of the request and nothing
  else; it is the last invocation of the call, preceded only by the device-list polls of
  the wait, and by none without the wait.
\<close>

lemma execute_command_invocation:
  assumes "adb_path self = Some p" and "p \<noteq> []"
  shows "\<exists>polls. invocations (snd (snd (execute_command command wfd (self, w)))) =
                    invocations w @ polls @ [Run (p # command) (timeout self)]
            \<and> (\<forall>e \<in> set polls. e = Run [p, ''devices''] (timeout self))
            \<and> (\<not> wfd \<longrightarrow> polls = [])"
proof -
  from execute_command_trace[OF assms, of command wfd w] obtain es where
    E: "execute_command command wfd (self, w) =
          (Inr (command_result (subprocess_run w (trace w @ es) (p # command) (timeout self))),
           (self, w\<lparr>trace := trace w @ es @ [Run (p # command) (timeout self)]\<rparr>))"
    and nw: "\<not> wfd \<longrightarrow> es = []"
    and polls: "\<forall>e \<in> set es. is_Run e \<longrightarrow> e = Run [p, ''devices''] (timeout self)"
    by blast
  have "invocations (snd (snd (execute_command command wfd (self, w)))) =
          invocations w @ filter is_Run es @ [Run (p # command) (timeout self)]"
    by (simp add: E invocations_def)
  moreover have "\<forall>e \<in> set (filter is_Run es). e = Run [p, ''devices''] (timeout self)"
    using polls by simp
  moreover have "\<not> wfd \<longrightarrow> filter is_Run es = []"
    using nw by simp
  ultimately show ?thesis
    by blast
qed

subsection \<open>C6: the seven property queries\<close>

text \<open>
  Claim C6. With a resolved executable, \<^verbatim>\<open>get_device_info\<close> issues the seven property
  queries of its table, in order, whatever their results, and returns a mapping. The
  key of each query is mapped to the trimmed output of that query when the command
  succeeded with non-empty output and is absent otherwise, so the keys of the mapping
  are exactly those of the queries that succeeded with non-empty output.
\<close>

theorem get_device_info_gathers_each_property:
  assumes "adb_path self = Some p" and "p \<noteq> []"
  shows "\<exists>info. get_device_info device_id (self, w) =
            (Inr info, (self, w\<lparr>trace := query_history p (timeout self) (trace w) commands 7\<rparr>))
          \<and> (\<forall>i < 7. info (snd (commands ! i)) = query_value w p (timeout self) commands i)
          \<and> dom info = {snd (commands ! i) | i. i < 7 \<and> query_value w p (timeout self) commands i \<noteq> None}"
proof -
  from get_device_info_loop_commands[OF assms, of w]
  obtain info where
    L1: "get_device_info_loop commands Map.empty (self, w) =
            (Inr info, (self, w\<lparr>trace := query_history p (timeout self) (trace w) commands (length commands)\<rparr>))"
    and L2: "\<forall>k. k \<notin> snd ` set commands \<longrightarrow> info k = Map.empty k"
    and L3: "\<forall>i < length commands. info (snd (commands ! i)) =
          (case query_value w p (timeout self) commands i of
             None \<Rightarrow> Map.empty (snd (commands ! i)) | Some v \<Rightarrow> Some v)"
    by (elim exE conjE)
  have I1: "get_device_info device_id (self, w) =
            (Inr info, (self, w\<lparr>trace := query_history p (timeout self) (trace w) commands 7\<rparr>))"
    using L1 unfolding get_device_info_def length_commands .
  have I3: "\<forall>i < 7. info (snd (commands ! i)) = query_value w p (timeout self) commands i"
  proof (intro allI impI)
    fix i :: nat assume "i < 7"
    then have "i < length commands" by (simp only: length_commands)
    with L3 have "info (snd (commands ! i)) =
          (case query_value w p (timeout self) commands i of
             None \<Rightarrow> None | Some v \<Rightarrow> Some v)" by blast
    then show "info (snd (commands ! i)) = query_value w p (timeout self) commands i"
      by (cases "query_value w p (timeout self) commands i") simp_all
  qed
  have "dom info = {snd (commands ! i) | i. i < 7 \<and> query_value w p (timeout self) commands i \<noteq> None}"
  proof (intro set_eqI iffI)
    fix k assume "k \<in> dom info"
    then have k: "info k \<noteq> None" by (simp add: domIff)
    with L2 have "k \<in> snd ` set commands" by fastforce
    then obtain c where "c \<in> set commands" "k = snd c" by (rule imageE)
    then obtain i where i: "i < length commands" "k = snd (commands ! i)"
      by (metis in_set_conv_nth)
    then have i7: "i < 7" by (simp only: length_commands)
    with I3 have "info (snd (commands ! i)) = query_value w p (timeout self) commands i" by blast
    with k i(2) have "query_value w p (timeout self) commands i \<noteq> None" by simp
    with i7 i(2) show "k \<in> {snd (commands ! i) | i. i < 7 \<and> query_value w p (timeout self) commands i \<noteq> None}"
      by blast
  next
    fix k assume "k \<in> {snd (commands ! i) | i. i < 7 \<and> query_value w p (timeout self) commands i \<noteq> None}"
    then obtain i where i: "i < 7" "k = snd (commands ! i)" "query_value w p (timeout self) commands i \<noteq> None"
      by blast
    from I3 i(1) have "info (snd (commands ! i)) = query_value w p (timeout self) commands i" by blast
    with i(2,3) show "k \<in> dom info" by (simp add: domIff)
  qed
  with I1 I3 show ?thesis by blast
qed

theorem get_device_info_gathers_each_property_witness:
  "adb_path demo_self = Some ''adb'' \<and> ''adb'' \<noteq> []
   \<and> (\<exists>info. fst (get_device_info None (demo_self, getprop_world)) = Inr info
        \<and> info ''Model'' = Some ''Pixel 7''
        \<and> info ''Android Version'' = Some ''14''
        \<and> info ''Security Patch'' = Some ''2024-01-05''
        \<and> info ''Manufacturer'' = Some ''Google''
        \<and> info ''Serial Number'' = None
        \<and> info ''Bootloader'' = None
        \<and> info ''Hardware'' = None)"
proof -
  have p: "adb_path demo_self = Some ''adb''" "''adb'' \<noteq> []"
    by (simp_all add: demo_self_def)
  have t: "timeout demo_self = 30" by (simp add: demo_self_def)
  from get_device_info_gathers_each_property[OF p, of None getprop_world]
  obtain info where
    I: "fst (get_device_info None (demo_self, getprop_world)) = Inr info"
       "\<forall>i < 7. info (snd (commands ! i)) = query_value getprop_world ''adb'' 30 commands i"
    unfolding t by auto
  have "info (snd (commands ! 0)) = query_value getprop_world ''adb'' 30 commands 0"
       "info (snd (commands ! 1)) = query_value getprop_world ''adb'' 30 commands 1"
       "info (snd (commands ! 2)) = query_value getprop_world ''adb'' 30 commands 2"
       "info (snd (commands ! 3)) = query_value getprop_world ''adb'' 30 commands 3"
       "info (snd (commands ! 4)) = query_value getprop_world ''adb'' 30 commands 4"
       "info (snd (commands ! 5)) = query_value getprop_world ''adb'' 30 commands 5"
       "info (snd (commands ! 6)) = query_value getprop_world ''adb'' 30 commands 6"
    using I(2) by simp_all
  then have V: "info ''Model'' = Some ''Pixel 7''"
        "info ''Android Version'' = Some ''14''"
        "info ''Security Patch'' = Some ''2024-01-05''"
        "info ''Manufacturer'' = Some ''Google''"
        "info ''Serial Number'' = None"
        "info ''Bootloader'' = None"
        "info ''Hardware'' = None"
    unfolding commands_nth_keys query_values_getprop_world by - assumption+
  show ?thesis
    using I(1) p V by (intro conjI exI[of _ info]) assumption+
qed

subsection \<open>C7: reboot modes\<close>

text \<open>
  Claim C7. For a mode outside system, recovery, bootloader, fastboot, download and
  sideload, \<^verbatim>\<open>reboot_device\<close> returns \<^verbatim>\<open>False\<close> and invokes no process. For the
  mode fastboot the invocation is \<^verbatim>\<open>reboot bootloader\<close>. When the reboot command of
  a valid mode succeeds, \<^verbatim>\<open>reboot_device\<close> returns \<^verbatim>\<open>True\<close> after a sleep of 5.
\<close>

theorem reboot_device_modes:
  "(mode \<notin> {''system'', ''recovery'', ''bootloader'', ''fastboot'', ''download'', ''sideload''}
      \<longrightarrow> reboot_device mode (self, w) = (Inr False, (self, print (InvalidMode mode) w))
          \<and> invocations (print (InvalidMode mode) w) = invocations w)
   \<and> (adb_path self = Some p \<and> p \<noteq> []
      \<longrightarrow> invocations (snd (snd (reboot_device ''fastboot'' (self, w)))) =
            invocations w @ [Run [p, ''reboot'', ''bootloader''] (timeout self)])
   \<and> (adb_path self = Some p \<and> p \<noteq> [] \<and> (mode, target) \<in> set modes
        \<and> success (command_result
              (subprocess_run w (trace w)
                 (p # ''reboot'' # (if target = [] then [] else [target])) (timeout self)))
      \<longrightarrow> reboot_device mode (self, w) =
            (Inr True,
             (self, w\<lparr>trace := trace w @
                [Run (p # ''reboot'' # (if target = [] then [] else [target])) (timeout self),
                 Print (Rebooting mode), Sleep 5]\<rparr>)))"
proof (intro conjI impI)
  assume "mode \<notin> {''system'', ''recovery'', ''bootloader'', ''fastboot'', ''download'', ''sideload''}"
  then have "map_of modes mode = None"
    by (simp add: map_of_modes)
  then show "reboot_device mode (self, w) = (Inr False, (self, print (InvalidMode mode) w))"
    by (simp add: reboot_device_def)
next
  show "invocations (print (InvalidMode mode) w) = invocations w"
    by (simp add: invocations_def print_def)
next
  assume a: "adb_path self = Some p \<and> p \<noteq> []"
  then have ex: "execute_command [''reboot'', ''bootloader''] False (self, w) =
     (Inr (command_result (subprocess_run w (trace w) [p, ''reboot'', ''bootloader''] (timeout self))),
      (self, w\<lparr>trace := trace w @ [Run [p, ''reboot'', ''bootloader''] (timeout self)]\<rparr>))"
    by (simp add: execute_command_direct)
  have m: "map_of modes ''fastboot'' = Some ''bootloader''"
    by (simp add: map_of_modes)
  show "invocations (snd (snd (reboot_device ''fastboot'' (self, w)))) =
            invocations w @ [Run [p, ''reboot'', ''bootloader''] (timeout self)]"
    by (simp add: reboot_device_def m ex invocations_def sleep_def print_def)
next
  let ?cmd = "''reboot'' # (if target = [] then [] else [target])"
  assume a: "adb_path self = Some p \<and> p \<noteq> [] \<and> (mode, target) \<in> set modes
        \<and> success (command_result (subprocess_run w (trace w) (p # ?cmd) (timeout self)))"
  then have m: "map_of modes mode = Some target"
    using distinct_modes by simp
  from a have ex: "execute_command ?cmd False (self, w) =
     (Inr (command_result (subprocess_run w (trace w) (p # ?cmd) (timeout self))),
      (self, w\<lparr>trace := trace w @ [Run (p # ?cmd) (timeout self)]\<rparr>))"
    by (simp add: execute_command_direct)
  have c: "[''reboot''] @ (if target \<noteq> [] then [target] else []) = ?cmd"
    by simp
  show "reboot_device mode (self, w) =
            (Inr True, (self, w\<lparr>trace := trace w @ [Run (p # ?cmd) (timeout self),
                 Print (Rebooting mode), Sleep 5]\<rparr>))"
    using a unfolding reboot_device_def by (simp add: m c ex sleep_def print_def del: append.simps)
qed

theorem reboot_device_modes_witness:
  "''not-a-real-mode'' \<notin> {''system'', ''recovery'', ''bootloader'', ''fastboot'', ''download'', ''sideload''}
   \<and> reboot_device ''not-a-real-mode'' (demo_self, world_of (\<lambda>h argv t. Completed 0 [] []))
       = (Inr False, (demo_self, print (InvalidMode ''not-a-real-mode'')
                                   (world_of (\<lambda>h argv t. Completed 0 [] []))))
   \<and> adb_path demo_self = Some ''adb'' \<and> ''adb'' \<noteq> []
   \<and> invocations (snd (snd (reboot_device ''fastboot''
         (demo_self, world_of (\<lambda>h argv t. Completed 0 [] [])))))
       = [Run [''adb'', ''reboot'', ''bootloader''] 30]
   \<and> (''recovery'', ''recovery'') \<in> set modes
   \<and> fst (reboot_device ''recovery'' (demo_self, world_of (\<lambda>h argv t. Completed 0 [] [])))
       = Inr True
   \<and> trace (snd (snd (reboot_device ''recovery''
         (demo_self, world_of (\<lambda>h argv t. Completed 0 [] [])))))
       = [Run [''adb'', ''reboot'', ''recovery''] 30, Print (Rebooting ''recovery''), Sleep 5]"
proof -
  let ?w = "world_of (\<lambda>h argv t. Completed 0 [] [])"
  have p: "adb_path demo_self = Some ''adb'' \<and> ''adb'' \<noteq> []"
    by (simp add: demo_self_def)
  have n: "''not-a-real-mode'' \<notin> {''system'', ''recovery'', ''bootloader'', ''fastboot'', ''download'', ''sideload''}"
    by simp
  have m: "(''recovery'', ''recovery'') \<in> set modes"
    by (simp add: modes_def)
  have s: "success (command_result (subprocess_run ?w (trace ?w)
             (''adb'' # ''reboot'' # (if ''recovery'' = [] then [] else [''recovery''])) (timeout demo_self)))"
    by (simp add: world_of_def command_result_def)
  have i: "invocations ?w = []" "trace ?w = []" "timeout demo_self = 30"
    by (simp_all add: invocations_def world_of_def demo_self_def)
  from reboot_device_modes[of "''not-a-real-mode''" demo_self ?w "''adb''" "''recovery''"]
       reboot_device_modes[of "''recovery''" demo_self ?w "''adb''" "''recovery''"]
  show ?thesis
    using p n m s unfolding i by simp
qed

subsection \<open>C8: root detection\<close>

text \<open>
  Claim C8. When the primary check (the elevated echo, marker \<^verbatim>\<open>root_check\<close>) passes,
  \<^verbatim>\<open>is_device_rooted\<close> returns \<^verbatim>\<open>True\<close> and its only invocation is the primary
  command. Otherwise it invokes the fallback command next and returns whether the
  fallback check (marker \<^verbatim>\<open>/su\<close>) passes. So it returns \<^verbatim>\<open>True\<close> exactly when the
  primary check passes, or else the fallback check does.
\<close>

theorem is_device_rooted_two_tier:
  assumes "adb_path self = Some p" and "p \<noteq> []"
  shows "(check_passes ''root_check''
            (subprocess_run w (trace w) (p # primary_check) (timeout self))
          \<longrightarrow> is_device_rooted (self, w) =
                (Inr True, (self, w\<lparr>trace := trace w @ [Run (p # primary_check) (timeout self)]\<rparr>)))
       \<and> (\<not> check_passes ''root_check''
              (subprocess_run w (trace w) (p # primary_check) (timeout self))
          \<longrightarrow> is_device_rooted (self, w) =
                (Inr (check_passes ''/su''
                        (subprocess_run w (trace w @ [Run (p # primary_check) (timeout self)])
                           (p # fallback_check) (timeout self))),
                 (self, w\<lparr>trace := trace w @ [Run (p # primary_check) (timeout self),
                                               Run (p # fallback_check) (timeout self)]\<rparr>)))"
proof -
  let ?t = "timeout self"
  let ?w1 = "w\<lparr>trace := trace w @ [Run (p # primary_check) ?t]\<rparr>"
  have e1: "execute_command [''shell'', ''su'', ''-c'', ''echo root_check''] False (self, w) =
     (Inr (command_result (subprocess_run w (trace w) (p # primary_check) ?t)), (self, ?w1))"
    using execute_command_direct[OF assms, of primary_check w] by (simp add: primary_check_def)
  have e2: "execute_command [''shell'', ''which'', ''su''] False (self, ?w1) =
     (Inr (command_result (subprocess_run w (trace w @ [Run (p # primary_check) ?t]) (p # fallback_check) ?t)),
      (self, w\<lparr>trace := trace w @ [Run (p # primary_check) ?t, Run (p # fallback_check) ?t]\<rparr>))"
    using execute_command_direct[OF assms, of fallback_check ?w1] by (simp add: fallback_check_def)
  show ?thesis
    by (simp add: is_device_rooted_def e1 e2 check_passes_def)
qed

theorem is_device_rooted_two_tier_witness:
  "adb_path demo_self = Some ''adb'' \<and> ''adb'' \<noteq> []
   \<and> check_passes ''root_check''
        (subprocess_run (world_of (\<lambda>h argv t. Completed 0 ''root_check\<newline>'' []))
           (trace (world_of (\<lambda>h argv t. Completed 0 ''root_check\<newline>'' [])))
           (''adb'' # primary_check) (timeout demo_self))
   \<and> fst (is_device_rooted (demo_self, world_of (\<lambda>h argv t. Completed 0 ''root_check\<newline>'' [])))
       = Inr True
   \<and> length (invocations (snd (snd (is_device_rooted
        (demo_self, world_of (\<lambda>h argv t. Completed 0 ''root_check\<newline>'' [])))))) = 1
   \<and> \<not> check_passes ''root_check''
        (subprocess_run (world_of (\<lambda>h argv t. Completed 1 [] ''su: not found\<newline>''))
           (trace (world_of (\<lambda>h argv t. Completed 1 [] ''su: not found\<newline>'')))
           (''adb'' # primary_check) (timeout demo_self))
   \<and> fst (is_device_rooted (demo_self, world_of (\<lambda>h argv t. Completed 1 [] ''su: not found\<newline>'')))
       = Inr False
   \<and> length (invocations (snd (snd (is_device_rooted
        (demo_self, world_of (\<lambda>h argv t. Completed 1 [] ''su: not found\<newline>'')))))) = 2"
proof -
  let ?w1 = "world_of (\<lambda>h argv t. Completed 0 ''root_check\<newline>'' [])"
  let ?w2 = "world_of (\<lambda>h argv t. Completed 1 [] ''su: not found\<newline>'')"
  have p: "adb_path demo_self = Some ''adb''" "''adb'' \<noteq> []"
    by (simp_all add: demo_self_def)
  have c1: "check_passes ''root_check''
        (subprocess_run ?w1 (trace ?w1) (''adb'' # primary_check) (timeout demo_self))"
    by (simp add: check_passes_def world_of_def command_result_def strip_def isspace_def)
  have c2: "\<not> check_passes ''root_check''
        (subprocess_run ?w2 (trace ?w2) (''adb'' # primary_check) (timeout demo_self))"
    by (simp add: check_passes_def world_of_def command_result_def)
  have c3: "\<not> check_passes ''/su''
        (subprocess_run ?w2 (trace ?w2 @ [Run (''adb'' # primary_check) (timeout demo_self)])
           (''adb'' # fallback_check) (timeout demo_self))"
    by (simp add: check_passes_def world_of_def command_result_def)
  from is_device_rooted_two_tier[OF p, of ?w1] is_device_rooted_two_tier[OF p, of ?w2]
  show ?thesis
    using p c1 c2 c3 by (simp add: invocations_def world_of_sel)
qed

subsection \<open>C9: resolving the executable\<close>

text \<open>
  Claim C9. \<^verbatim>\<open>find_adb\<close> probes the six candidates in order (the last two are the
  paths \<^verbatim>\<open>pathlib\<close> builds under the home directory) and returns the first one
  whose version query exits with code 0, probing no further; when no probe passes it
  returns \<^verbatim>\<open>None\<close> after probing all six. A probe that times out or raises counts as
  failed; \<^verbatim>\<open>find_adb\<close> has no exceptional result.
\<close>

theorem find_adb_first_working_candidate:
  "((\<forall>i < 6. \<not> probe_ok w (possible_paths w) i) \<longrightarrow>
       find_adb w = (None, w\<lparr>trace := probe_history (possible_paths w) (trace w) 6\<rparr>))
   \<and> (\<forall>i < 6. probe_ok w (possible_paths w) i \<and> (\<forall>j < i. \<not> probe_ok w (possible_paths w) j) \<longrightarrow>
       find_adb w = (Some (possible_paths w ! i),
                     w\<lparr>trace := probe_history (possible_paths w) (trace w) (Suc i)\<rparr>))
   \<and> (fst (find_adb w) = None \<longleftrightarrow> (\<forall>i < 6. \<not> probe_ok w (possible_paths w) i))"
proof -
  let ?cs = "possible_paths w"
  have none: "find_adb w = (None, w\<lparr>trace := probe_history ?cs (trace w) 6\<rparr>)"
    if "\<forall>i < 6. \<not> probe_ok w ?cs i"
    using find_adb_loop_none[of ?cs w] that
    unfolding find_adb_def length_possible_paths by simp
  have first: "find_adb w = (Some (?cs ! i), w\<lparr>trace := probe_history ?cs (trace w) (Suc i)\<rparr>)"
    if "i < 6" "probe_ok w ?cs i" "\<forall>j < i. \<not> probe_ok w ?cs j" for i
    using find_adb_loop_first[of i ?cs w] that
    unfolding find_adb_def length_possible_paths by simp
  have iff: "fst (find_adb w) = None \<longleftrightarrow> (\<forall>i < 6. \<not> probe_ok w ?cs i)"
  proof
    assume n: "fst (find_adb w) = None"
    show "\<forall>i < 6. \<not> probe_ok w ?cs i"
    proof (rule ccontr)
      assume "\<not> (\<forall>i < 6. \<not> probe_ok w ?cs i)"
      then have ex: "\<exists>i. i < 6 \<and> probe_ok w ?cs i" by blast
      define k where "k = (LEAST i. i < 6 \<and> probe_ok w ?cs i)"
      from ex have k: "k < 6 \<and> probe_ok w ?cs k"
        unfolding k_def by (rule LeastI_ex)
      have "\<forall>j < k. \<not> probe_ok w ?cs j"
      proof (intro allI impI)
        fix j assume "j < k"
        then have "\<not> (j < 6 \<and> probe_ok w ?cs j)"
          unfolding k_def by (rule not_less_Least)
        with \<open>j < k\<close> k show "\<not> probe_ok w ?cs j" by simp
      qed
      with first[of k] k have "fst (find_adb w) = Some (?cs ! k)" by simp
      with n show False by simp
    qed
  next
    assume "\<forall>i < 6. \<not> probe_ok w ?cs i"
    from none[OF this] show "fst (find_adb w) = None" by simp
  qed
  from none first iff show ?thesis by blast
qed

theorem find_adb_first_working_candidate_witness:
  "\<not> probe_ok usr_bin_world (possible_paths usr_bin_world) 0
   \<and> probe_ok usr_bin_world (possible_paths usr_bin_world) 1
   \<and> find_adb usr_bin_world =
       (Some ''/usr/bin/adb'',
        usr_bin_world\<lparr>trace := [Run [''adb'', ''--version''] 5, Run [''/usr/bin/adb'', ''--version''] 5]\<rparr>)
   \<and> fst (find_adb (world_of (\<lambda>h argv t. OtherException ''Permission denied''))) = None
   \<and> probe_ok root_home_world (possible_paths root_home_world) 4
   \<and> fst (find_adb root_home_world) =
       Some ''/AppData/Local/Android/Sdk/platform-tools/adb.exe''"
proof -
  let ?w = "world_of (\<lambda>h argv t. OtherException ''Permission denied'')"
  have 0: "\<not> probe_ok usr_bin_world (possible_paths usr_bin_world) 0"
    by (simp add: probe_ok_def probe_history_def possible_paths_def usr_bin_world_def world_of_sel)
  have 1: "probe_ok usr_bin_world (possible_paths usr_bin_world) 1"
    by (simp add: probe_ok_def probe_history_def possible_paths_def usr_bin_world_def world_of_sel)
  have b: "\<forall>j < 1. \<not> probe_ok usr_bin_world (possible_paths usr_bin_world) j"
    using 0 by simp
  have n: "\<forall>i < 6. \<not> probe_ok ?w (possible_paths ?w) i"
    by (simp add: probe_ok_def world_of_sel)
  have h: "probe_history (possible_paths usr_bin_world) (trace usr_bin_world) (Suc 1) =
             [Run [''adb'', ''--version''] 5, Run [''/usr/bin/adb'', ''--version''] 5]"
    by (simp add: probe_history_def possible_paths_def usr_bin_world_def world_of_sel)
  have c: "possible_paths usr_bin_world ! 1 = ''/usr/bin/adb''"
    by (simp add: possible_paths_def)
  have r: "\<not> probe_ok root_home_world (possible_paths root_home_world) 0"
      "\<not> probe_ok root_home_world (possible_paths root_home_world) 1"
      "\<not> probe_ok root_home_world (possible_paths root_home_world) 2"
      "\<not> probe_ok root_home_world (possible_paths root_home_world) 3"
    by (simp_all add: probe_ok_def possible_paths_def root_home_world_def world_of_def)
  have r4: "probe_ok root_home_world (possible_paths root_home_world) 4"
    by (simp add: probe_ok_def possible_paths_def root_home_world_def world_of_def)
  have rb: "\<forall>j < 4. \<not> probe_ok root_home_world (possible_paths root_home_world) j"
  proof (intro allI impI)
    fix j :: nat assume "j < 4"
    then have "j = 0 \<or> j = 1 \<or> j = 2 \<or> j = 3" by arith
    with r show "\<not> probe_ok root_home_world (possible_paths root_home_world) j" by auto
  qed
  have rc: "possible_paths root_home_world ! 4 =
              ''/AppData/Local/Android/Sdk/platform-tools/adb.exe''"
    by (simp add: possible_paths_def root_home_world_def)
  from find_adb_first_working_candidate[of usr_bin_world] 1 b
  have "find_adb usr_bin_world = (Some (possible_paths usr_bin_world ! 1),
          usr_bin_world\<lparr>trace := probe_history (possible_paths usr_bin_world) (trace usr_bin_world) (Suc 1)\<rparr>)"
    by simp
  moreover from find_adb_first_working_candidate[of ?w] n
  have "fst (find_adb ?w) = None" by blast
  moreover have "fst (find_adb root_home_world) = Some (possible_paths root_home_world ! 4)"
  proof -
    from find_adb_first_working_candidate[of root_home_world]
    have "\<forall>i < 6. probe_ok root_home_world (possible_paths root_home_world) i
            \<and> (\<forall>j < i. \<not> probe_ok root_home_world (possible_paths root_home_world) j) \<longrightarrow>
          find_adb root_home_world =
            (Some (possible_paths root_home_world ! i),
             root_home_world\<lparr>trace := probe_history (possible_paths root_home_world)
                                        (trace root_home_world) (Suc i)\<rparr>)"
      by blast
    from this[rule_format, of 4] r4 rb show ?thesis by simp
  qed
  ultimately show ?thesis
    using 0 1 r4 unfolding h c rc by simp
qed

subsection \<open>C10: the session state is fixed at construction\<close>

text \<open>
  Claim C10. Every public operation returns with the object it was called on: whatever
  the world answers, and whether the operation returns or raises, \<^verbatim>\<open>adb_path\<close>,
  \<^verbatim>\<open>devices\<close> and \<^verbatim>\<open>timeout\<close> are as before the call. The constructor sets
  \<^verbatim>\<open>adb_path\<close> to the result of \<^verbatim>\<open>find_adb\<close> and \<^verbatim>\<open>timeout\<close> to 30.
\<close>

theorem operations_leave_session_unchanged:
  "fst (snd (execute_command command wfd (self, w))) = self
   \<and> fst (snd (wait_for_device max_attempts (self, w))) = self
   \<and> fst (snd (get_device_info device_id (self, w))) = self
   \<and> fst (snd (reboot_device mode (self, w))) = self
   \<and> fst (snd (is_device_rooted (self, w))) = self
   \<and> fst (snd (push_file local_path device_path (self, w))) = self
   \<and> fst (snd (pull_file device_path local_path (self, w))) = self
   \<and> fst (snd (shell_command shell_text root (self, w))) = self
   \<and> adb_path (fst (init w)) = fst (find_adb w)
   \<and> timeout (fst (init w)) = 30"
proof -
  have "adb_path (fst (init w)) = fst (find_adb w)" "timeout (fst (init w)) = 30"
    by (simp_all add: init_def split: prod.split)
  then show ?thesis
    using execute_command_self[of command wfd self w]
      wait_for_device_self[of max_attempts self w]
      get_device_info_self[of device_id self w]
      reboot_device_self[of mode self w]
      is_device_rooted_self[of self w]
      push_file_self[of local_path device_path self w]
      pull_file_self[of device_path local_path self w]
      shell_command_self[of shell_text root self w]
    by (intro conjI) assumption+
qed

end
